theory Spec2Isabelle
  imports Main "HOL-Library.Sublist"
begin

unbundle bit_operations_syntax

chapter \<open>The archive engine of attic (src/attic/archive.py)\<close>

text \<open>
  A shallow embedding of \<^verbatim>\<open>src/attic/archive.py\<close>: the chunk buffer, the archive's
  save/checkpoint/delete/statistics operations, the ingest of a regular file, the restore
  of one item, and the checker's repair pass. Python strings and byte strings are both
  \<open>string\<close>; Python integers are \<open>int\<close> where they can go negative and \<open>nat\<close>
  where the source only ever holds sizes, modes and ids.
\<close>

section \<open>Values, errors and the result-and-state convention\<close>

type_synonym bytes = string
type_synonym chunk_id = string

text \<open>A file-chunk reference \<open>(id, size, csize)\<close> as stored in an item's \<open>chunks\<close>.\<close>

type_synonym chunk_ref = "chunk_id \<times> nat \<times> nat"

datatype errno = ENOENT | ENOTEMPTY | ENOTSUP | EACCES | EEXIST | EPERM | EIO

text \<open>
  Every exception the modelled code can raise. \<open>UnsafePath\<close> is
  \<^verbatim>\<open>Exception('Path should be relative and local')\<close>, \<open>UnknownItemType\<close> is
  \<^verbatim>\<open>Exception('Unknown archive item type %r')\<close>; \<open>FetchFailed\<close> stands for whatever the
  repository or the key raises while a chunk is fetched and decrypted.
\<close>

datatype error =
    AlreadyExists string
  | UnsafePath
  | UnknownItemType nat
  | OSError errno
  | KeyError string
  | IndexError
  | AssertionError
  | StopIteration
  | TypeError
  | AttributeError string
  | FetchFailed chunk_id

text \<open>
  A Python method that mutates state and may raise is a function from the state to an
  outcome and the state reached: \<open>Inl e\<close> when it raised \<open>e\<close> (the state is the one at
  the raise), \<open>Inr v\<close> when it returned \<open>v\<close>.
\<close>

definition retE :: "'a \<Rightarrow> 's \<Rightarrow> (error + 'a) \<times> 's" where
  "retE x s = (Inr x, s)"

definition throwE :: "error \<Rightarrow> 's \<Rightarrow> (error + 'a) \<times> 's" where
  "throwE e s = (Inl e, s)"

definition bindE ::
  "('s \<Rightarrow> (error + 'a) \<times> 's) \<Rightarrow> ('a \<Rightarrow> 's \<Rightarrow> (error + 'b) \<times> 's) \<Rightarrow> 's \<Rightarrow> (error + 'b) \<times> 's" where
  "bindE m f s = (case m s of (Inl e, s') \<Rightarrow> (Inl e, s') | (Inr x, s') \<Rightarrow> f x s')"

text \<open>\<^verbatim>\<open>try: ... except OSError: pass\<close>\<close>

definition ignore_OSError :: "('s \<Rightarrow> (error + unit) \<times> 's) \<Rightarrow> 's \<Rightarrow> (error + unit) \<times> 's" where
  "ignore_OSError m s =
     (case m s of (Inl (OSError e), s') \<Rightarrow> (Inr (), s') | r \<Rightarrow> r)"

text \<open>A \<^verbatim>\<open>for\<close> loop whose body may raise: the first exception ends the loop.\<close>

fun forE :: "'a list \<Rightarrow> ('a \<Rightarrow> 's \<Rightarrow> (error + unit) \<times> 's) \<Rightarrow> 's \<Rightarrow> (error + unit) \<times> 's" where
  "forE [] body s = (Inr (), s)"
| "forE (x # xs) body s =
     (case body x s of (Inl e, s') \<Rightarrow> (Inl e, s') | (Inr u, s') \<Rightarrow> forE xs body s')"

text \<open>A list comprehension whose element expression has effects and may raise.\<close>

fun mapE :: "('a \<Rightarrow> 's \<Rightarrow> (error + 'b) \<times> 's) \<Rightarrow> 'a list \<Rightarrow> 's \<Rightarrow> (error + 'b list) \<times> 's" where
  "mapE f [] s = (Inr [], s)"
| "mapE f (x # xs) s =
     (case f x s of
        (Inl e, s') \<Rightarrow> (Inl e, s')
      | (Inr y, s') \<Rightarrow>
          (case mapE f xs s' of (Inl e, s'') \<Rightarrow> (Inl e, s'') | (Inr ys, s'') \<Rightarrow> (Inr (y # ys), s'')))"

text \<open>Python's \<^verbatim>\<open>str.startswith\<close>, \<^verbatim>\<open>str.endswith\<close>.\<close>

definition startswith :: "string \<Rightarrow> string \<Rightarrow> bool" where
  "startswith s p = (take (length p) s = p)"

definition endswith :: "string \<Rightarrow> string \<Rightarrow> bool" where
  "endswith s p = (length p \<le> length s \<and> drop (length s - length p) s = p)"

section \<open>Items\<close>

text \<open>
  An item is a dict. The keys \<^verbatim>\<open>stat_attrs\<close> always writes together with \<open>path\<close> are
  plain fields; the keys only some items carry (\<open>rdev\<close>, \<open>source\<close>, \<open>chunks\<close>,
  \<open>xattrs\<close>) are options, and reading an absent one is the source's \<open>KeyError\<close>.
  \<open>user\<close> and \<open>group\<close> are present but may be \<open>None\<close>.
\<close>

record item =
  i_path :: string
  i_mode :: nat
  i_uid :: nat
  i_gid :: nat
  i_user :: "string option"
  i_group :: "string option"
  i_mtime :: int
  i_rdev :: "nat option"
  i_source :: "string option"
  i_chunks :: "chunk_ref list option"
  i_xattrs :: "(bytes \<times> bytes) list option"

section \<open>Restore: \<open>Archive.extract_item\<close> and \<open>Archive.restore_attrs\<close>\<close>

subsection \<open>The operating system\<close>

text \<open>
  The calls the restore path makes. \<open>Stat\<close> is the \<^verbatim>\<open>os.stat\<close> behind
  \<^verbatim>\<open>os.path.exists\<close>. \<open>UtimeSec\<close> is the legacy \<^verbatim>\<open>os.utime(path, (s, s))\<close>; its
  argument is kept in nanoseconds.
\<close>

datatype syscall =
    Lstat string
  | Stat string
  | Rmdir string
  | Unlink string
  | Makedirs string
  | Link string string
  | OpenWb string
  | WriteFd nat bytes
  | FlushFd nat
  | CloseFd nat
  | Mkfifo string
  | Symlink string string
  | Mknod string nat nat
  | SetxattrFd nat bytes bytes
  | SetxattrPath string bytes bytes
  | Fchown nat nat nat
  | Lchown string nat nat
  | Fchmod nat nat
  | Chmod string nat
  | Lchmod string nat
  | UtimeFdNs nat int
  | UtimePathNs string int
  | UtimeSec string int

text \<open>
  The state of the restore path is the list of calls made so far, oldest first. The
  operating system is any function from that history and the next call to the call's
  reply: an errno, or the integer the call returns (\<open>st_mode\<close> for \<open>Lstat\<close>, the
  file number for \<open>OpenWb\<close>, unused otherwise).
\<close>

type_synonym os = "syscall list \<Rightarrow> syscall \<Rightarrow> errno + nat"

definition sys :: "os \<Rightarrow> syscall \<Rightarrow> syscall list \<Rightarrow> (error + nat) \<times> syscall list" where
  "sys os c tr = (case os tr c of Inl e \<Rightarrow> (Inl (OSError e), tr @ [c]) | Inr v \<Rightarrow> (Inr v, tr @ [c]))"

definition sys_unit :: "os \<Rightarrow> syscall \<Rightarrow> syscall list \<Rightarrow> (error + unit) \<times> syscall list" where
  "sys_unit os c = bindE (sys os c) (\<lambda>v. retE ())"

text \<open>\<^verbatim>\<open>os.path.exists\<close>: \<open>False\<close> when \<^verbatim>\<open>os.stat\<close> raises \<open>OSError\<close>.\<close>

definition exists :: "os \<Rightarrow> string \<Rightarrow> syscall list \<Rightarrow> (error + bool) \<times> syscall list" where
  "exists os p tr = (case os tr (Stat p) of Inl e \<Rightarrow> (Inr False, tr @ [Stat p]) | Inr v \<Rightarrow> (Inr True, tr @ [Stat p]))"

text \<open>\<^verbatim>\<open>posixpath.join(a, b)\<close> and \<^verbatim>\<open>posixpath.dirname\<close>.\<close>

definition join :: "string \<Rightarrow> string \<Rightarrow> string" where
  "join a b =
     (if startswith b ''/'' then b
      else if a = [] \<or> endswith a ''/'' then a @ b
      else a @ ''/'' @ b)"

definition rstrip_slash :: "string \<Rightarrow> string" where
  "rstrip_slash s = rev (dropWhile (\<lambda>c. c = CHR ''/'') (rev s))"

definition dirname :: "string \<Rightarrow> string" where
  "dirname p =
     (let head = rev (dropWhile (\<lambda>c. c \<noteq> CHR ''/'') (rev p))
      in if head \<noteq> [] \<and> head \<noteq> replicate (length head) (CHR ''/'') then rstrip_slash head else head)"

text \<open>
  The file-type tests of Python's \<^verbatim>\<open>stat\<close> module. The constants are the octal
  \<^verbatim>\<open>0o170000\<close> (\<open>S_IFMT\<close>), \<^verbatim>\<open>0o040000\<close> (directory), \<^verbatim>\<open>0o100000\<close> (regular),
  \<^verbatim>\<open>0o010000\<close> (fifo), \<^verbatim>\<open>0o120000\<close> (symlink), \<^verbatim>\<open>0o020000\<close> (character device)
  and \<^verbatim>\<open>0o060000\<close> (block device), written in decimal.
\<close>

definition S_IFMT :: "nat \<Rightarrow> nat" where
  "S_IFMT m = m AND 61440"

definition S_ISDIR :: "nat \<Rightarrow> bool" where "S_ISDIR m = (S_IFMT m = 16384)"
definition S_ISREG :: "nat \<Rightarrow> bool" where "S_ISREG m = (S_IFMT m = 32768)"
definition S_ISFIFO :: "nat \<Rightarrow> bool" where "S_ISFIFO m = (S_IFMT m = 4096)"
definition S_ISLNK :: "nat \<Rightarrow> bool" where "S_ISLNK m = (S_IFMT m = 40960)"
definition S_ISCHR :: "nat \<Rightarrow> bool" where "S_ISCHR m = (S_IFMT m = 8192)"
definition S_ISBLK :: "nat \<Rightarrow> bool" where "S_ISBLK m = (S_IFMT m = 24576)"

subsection \<open>What the restore path reads\<close>

text \<open>
  \<open>cwd\<close> and \<open>numeric_owner\<close> are the fields of the \<open>Archive\<close> object the restore
  path reads; it changes none. \<open>utime_supports_fd\<close> and \<open>has_lchmod\<close> are the module's
  platform flags. \<open>user2uid\<close> and \<open>group2gid\<close> (attic.helpers) and the download
  pipeline's fetch-and-decrypt of one chunk are parameters: \<open>fetch i = None\<close> when
  fetching chunk \<open>i\<close> raises.
\<close>

record restore_ctx =
  cwd :: string
  numeric_owner :: bool
  utime_supports_fd :: bool
  has_lchmod :: bool
  user2uid :: "string option \<Rightarrow> nat option"
  group2gid :: "string option \<Rightarrow> nat option"
  fetch :: "chunk_id \<Rightarrow> bytes option"
  the_os :: os

text \<open>\<^verbatim>\<open>a or b\<close> on an optional integer: \<open>None\<close> and \<open>0\<close> are both false.\<close>

definition py_or :: "nat option \<Rightarrow> nat \<Rightarrow> nat" where
  "py_or a b = (case a of None \<Rightarrow> b | Some n \<Rightarrow> if n = 0 then b else n)"

text \<open>Truth value of the \<open>fd\<close> argument of \<open>restore_attrs\<close> (\<open>None\<close> by default).\<close>

definition fd_true :: "nat option \<Rightarrow> bool" where
  "fd_true fd = (case fd of None \<Rightarrow> False | Some n \<Rightarrow> n \<noteq> 0)"

subsection \<open>\<open>restore_attrs\<close> (lines 283-317)\<close>

text \<open>One \<^verbatim>\<open>xattr.setxattr(fd or path, k, v)\<close>; only \<open>ENOTSUP\<close> is swallowed.\<close>

definition set_one_xattr ::
  "os \<Rightarrow> string \<Rightarrow> nat option \<Rightarrow> bytes \<times> bytes \<Rightarrow> syscall list \<Rightarrow> (error + unit) \<times> syscall list" where
  "set_one_xattr os p fd kv tr =
     (case sys_unit os (if fd_true fd then SetxattrFd (the fd) (fst kv) (snd kv)
                        else SetxattrPath p (fst kv) (snd kv)) tr of
        (Inl (OSError e), tr') \<Rightarrow> if e \<noteq> ENOTSUP then (Inl (OSError e), tr') else (Inr (), tr')
      | r \<Rightarrow> r)"

definition restore_attrs ::
  "restore_ctx \<Rightarrow> string \<Rightarrow> item \<Rightarrow> bool \<Rightarrow> nat option \<Rightarrow> syscall list \<Rightarrow> (error + unit) \<times> syscall list" where
  "restore_attrs R p it symlink fd =
     bindE (case i_xattrs it of
              None \<Rightarrow> retE ()
            | Some xs \<Rightarrow> if xs \<noteq> [] then forE xs (set_one_xattr (the_os R) p fd) else retE ())
     (\<lambda>u. let uid0 = (if \<not> numeric_owner R then user2uid R (i_user it) else None);
              gid0 = (if \<not> numeric_owner R then group2gid R (i_group it) else None);
              uid = py_or uid0 (i_uid it);
              gid = py_or gid0 (i_gid it)
          in
       bindE (ignore_OSError
                (if fd_true fd then sys_unit (the_os R) (Fchown (the fd) uid gid)
                 else sys_unit (the_os R) (Lchown p uid gid)))
       (\<lambda>u.
       bindE (if fd_true fd then sys_unit (the_os R) (Fchmod (the fd) (i_mode it))
              else if \<not> symlink then sys_unit (the_os R) (Chmod p (i_mode it))
              else if has_lchmod R then sys_unit (the_os R) (Lchmod p (i_mode it))
              else retE ())
       (\<lambda>u.
          if fd_true fd \<and> utime_supports_fd R then sys_unit (the_os R) (UtimeFdNs (the fd) (i_mtime it))
          else if utime_supports_fd R then sys_unit (the_os R) (UtimePathNs p (i_mtime it))
          else if \<not> symlink then sys_unit (the_os R) (UtimeSec p (i_mtime it))
          else retE ())))"

subsection \<open>\<open>extract_item\<close> (lines 222-281)\<close>

text \<open>
  \<^verbatim>\<open>for _ in self.pipeline.fetch_many(ids, is_preloaded=True): pass\<close> of the dry run.
\<close>

definition drain_chunks :: "restore_ctx \<Rightarrow> item \<Rightarrow> syscall list \<Rightarrow> (error + unit) \<times> syscall list" where
  "drain_chunks R it =
     (case i_chunks it of
        None \<Rightarrow> retE ()
      | Some cs \<Rightarrow>
          forE (map fst cs) (\<lambda>i. case fetch R i of None \<Rightarrow> throwE (FetchFailed i) | Some d \<Rightarrow> retE ()))"

text \<open>
  Lines 233-241: \<^verbatim>\<open>try: st = os.lstat(path); rmdir or unlink; except OSError: pass\<close>.
\<close>

definition remove_existing :: "os \<Rightarrow> string \<Rightarrow> syscall list \<Rightarrow> (error + unit) \<times> syscall list" where
  "remove_existing os p =
     ignore_OSError
       (bindE (sys os (Lstat p))
          (\<lambda>st_mode. if S_ISDIR st_mode then sys_unit os (Rmdir p) else sys_unit os (Unlink p)))"

text \<open>\<^verbatim>\<open>if not os.path.exists(d): os.makedirs(d)\<close>\<close>

definition ensure_dir :: "os \<Rightarrow> string \<Rightarrow> syscall list \<Rightarrow> (error + unit) \<times> syscall list" where
  "ensure_dir os d = bindE (exists os d) (\<lambda>ex. if \<not> ex then sys_unit os (Makedirs d) else retE ())"

text \<open>\<^verbatim>\<open>if os.path.exists(path): os.unlink(path)\<close>\<close>

definition unlink_if_exists :: "os \<Rightarrow> string \<Rightarrow> syscall list \<Rightarrow> (error + unit) \<times> syscall list" where
  "unlink_if_exists os p = bindE (exists os p) (\<lambda>ex. if ex then sys_unit os (Unlink p) else retE ())"

text \<open>
  The \<^verbatim>\<open>with open(path, 'wb') as fd\<close> block: the file is closed when the body ends,
  also when it raised; an error of the close replaces the body's outcome.
\<close>

definition closing ::
  "os \<Rightarrow> nat \<Rightarrow> (syscall list \<Rightarrow> (error + unit) \<times> syscall list) \<Rightarrow> syscall list \<Rightarrow> (error + unit) \<times> syscall list" where
  "closing os fileno body tr =
     (case body tr of (r, tr') \<Rightarrow>
        (case sys_unit os (CloseFd fileno) tr' of
           (Inl e, tr'') \<Rightarrow> (Inl e, tr'')
         | (Inr u, tr'') \<Rightarrow> (r, tr'')))"

definition write_file :: "restore_ctx \<Rightarrow> string \<Rightarrow> item \<Rightarrow> syscall list \<Rightarrow> (error + unit) \<times> syscall list" where
  "write_file R p it =
     bindE (sys (the_os R) (OpenWb p))
       (\<lambda>fileno. closing (the_os R) fileno
          (case i_chunks it of
             None \<Rightarrow> throwE (KeyError ''chunks'')
           | Some cs \<Rightarrow>
               bindE (forE (map fst cs)
                        (\<lambda>i. case fetch R i of
                                None \<Rightarrow> throwE (FetchFailed i)
                              | Some d \<Rightarrow> sys_unit (the_os R) (WriteFd fileno d)))
               (\<lambda>u. bindE (sys_unit (the_os R) (FlushFd fileno))
               (\<lambda>u. restore_attrs R p it False (Some fileno)))))"

text \<open>Lines 242-281: the dispatch on the item's file type.\<close>

definition materialize ::
  "restore_ctx \<Rightarrow> item \<Rightarrow> bool \<Rightarrow> string \<Rightarrow> syscall list \<Rightarrow> (error + unit) \<times> syscall list" where
  "materialize R it restore_attrs_flag p =
     (let os = the_os R; mode = i_mode it in
      if S_ISDIR mode then
        bindE (ensure_dir os p)
          (\<lambda>u. if restore_attrs_flag then restore_attrs R p it False None else retE ())
      else if S_ISREG mode then
        bindE (ensure_dir os (dirname p))
          (\<lambda>u. case i_source it of
                 Some src \<Rightarrow>
                   bindE (unlink_if_exists os p) (\<lambda>u. sys_unit os (Link (join (cwd R) src) p))
               | None \<Rightarrow> write_file R p it)
      else if S_ISFIFO mode then
        bindE (ensure_dir os (dirname p))
          (\<lambda>u. bindE (sys_unit os (Mkfifo p)) (\<lambda>u. restore_attrs R p it False None))
      else if S_ISLNK mode then
        bindE (ensure_dir os (dirname p))
          (\<lambda>u. case i_source it of
                 None \<Rightarrow> throwE (KeyError ''source'')
               | Some src \<Rightarrow>
                   bindE (unlink_if_exists os p)
                     (\<lambda>u. bindE (sys_unit os (Symlink src p)) (\<lambda>u. restore_attrs R p it True None)))
      else if S_ISCHR mode \<or> S_ISBLK mode then
        (case i_rdev it of
           None \<Rightarrow> throwE (KeyError ''rdev'')
         | Some rdev \<Rightarrow> bindE (sys_unit os (Mknod p mode rdev)) (\<lambda>u. restore_attrs R p it False None))
      else throwE (UnknownItemType mode))"

definition extract_item ::
  "restore_ctx \<Rightarrow> item \<Rightarrow> bool \<Rightarrow> bool \<Rightarrow> syscall list \<Rightarrow> (error + unit) \<times> syscall list" where
  "extract_item R it restore_attrs_flag dry_run =
     (if dry_run then drain_chunks R it
      else if startswith (i_path it) ''/'' \<or> startswith (i_path it) ''..'' then throwE UnsafePath
      else bindE (remove_existing (the_os R) (join (cwd R) (i_path it)))
             (\<lambda>u. materialize R it restore_attrs_flag (join (cwd R) (i_path it))))"

section \<open>Collaborators that are not in the repository's files\<close>

text \<open>
  The \<open>Key\<close> interface (attic.key): the keyed content hash, encryption, authenticated
  decryption (\<open>None\<close> when it raises) and the chunker seed. Any four functions will do.
\<close>

record key =
  id_hash :: "bytes \<Rightarrow> chunk_id"
  encrypt :: "bytes \<Rightarrow> bytes"
  decrypt :: "chunk_id \<Rightarrow> bytes \<Rightarrow> bytes option"
  chunk_seed :: nat

text \<open>
  \<^verbatim>\<open>chunkify(stream, window_size, chunk_mask, chunk_min, seed)\<close> (attic.chunker), as the
  list of chunks it yields for the stream's bytes.
\<close>

type_synonym chunker = "bytes \<Rightarrow> nat \<Rightarrow> nat \<Rightarrow> nat \<Rightarrow> nat \<Rightarrow> bytes list"

text \<open>
  What a msgpack \<open>Unpacker\<close> yields: a dict, which in this model is always an item, or
  some other object. A streaming unpacker is a function from the bytes fed and not yet
  consumed to the objects that are complete and the bytes left over.
\<close>

datatype obj = Dict item | Other

type_synonym unpacker = "bytes \<Rightarrow> obj list \<times> bytes"

definition ITEMS_BUFFER :: nat where "ITEMS_BUFFER = 1024 * 1024"
definition CHUNK_MIN :: nat where "CHUNK_MIN = 1024"
definition WINDOW_SIZE :: nat where "WINDOW_SIZE = 0xfff"
definition CHUNK_MASK :: nat where "CHUNK_MASK = 0xffff"

section \<open>\<open>ChunkBuffer\<close> (lines 56-88)\<close>

record chunk_buffer =
  cb_buffer :: bytes
  cb_chunks :: "chunk_id list"

definition BUFFER_SIZE :: nat where "BUFFER_SIZE = 1 * 1024 * 1024"

text \<open>
  \<open>self.buffer\<close> is a \<open>BytesIO\<close> that is only ever appended to, or emptied and
  rewritten from the start, so its position \<open>tell()\<close> is its length.
\<close>

definition is_full :: "chunk_buffer \<Rightarrow> bool" where
  "is_full cb = (length (cb_buffer cb) > BUFFER_SIZE)"

text \<open>
  The abstract \<open>write_chunk\<close>: in the subclasses it changes a state \<open>'s\<close> outside the
  buffer (the cache, the checker's index) and returns the chunk's id, or raises.
\<close>

type_synonym 's chunk_writer = "bytes \<Rightarrow> 's \<Rightarrow> (error + chunk_id) \<times> 's"

text \<open>\<^verbatim>\<open>self.chunks.append(self.write_chunk(chunk))\<close>\<close>

definition append_chunk ::
  "'s chunk_writer \<Rightarrow> bytes \<Rightarrow> chunk_buffer \<times> 's \<Rightarrow> (error + unit) \<times> (chunk_buffer \<times> 's)" where
  "append_chunk write_chunk c = (\<lambda>(cb, s).
     case write_chunk c s of
       (Inl e, s') \<Rightarrow> (Inl e, (cb, s'))
     | (Inr i, s') \<Rightarrow> (Inr (), (cb\<lparr>cb_chunks := cb_chunks cb @ [i]\<rparr>, s')))"

text \<open>Python's \<^verbatim>\<open>xs[:stop]\<close>, \<open>stop\<close> being \<open>None\<close> or an integer.\<close>

definition py_slice_to :: "'a list \<Rightarrow> int option \<Rightarrow> 'a list" where
  "py_slice_to xs stop =
     (case stop of
        None \<Rightarrow> xs
      | Some e \<Rightarrow> if e < 0 then take (nat (int (length xs) + e)) xs else take (nat e) xs)"

text \<open>
  \<open>flush(self, flush=False)\<close>; the flag is called \<open>final\<close> here. \<open>stop\<close> is the
  source's \<open>end\<close>. \<^verbatim>\<open>chunks[-1]\<close> of an empty list is an \<open>IndexError\<close>.
\<close>

definition flush ::
  "chunker \<Rightarrow> key \<Rightarrow> 's chunk_writer \<Rightarrow> bool \<Rightarrow> chunk_buffer \<times> 's \<Rightarrow> (error + unit) \<times> (chunk_buffer \<times> 's)" where
  "flush chunkify k write_chunk final = (\<lambda>(cb, s).
     if length (cb_buffer cb) = 0 then (Inr (), (cb, s))
     else
       let chunks = chunkify (cb_buffer cb) WINDOW_SIZE CHUNK_MASK CHUNK_MIN (chunk_seed k);
           stop = (if final \<or> length chunks = 1 then None else Some (- 1))
       in bindE (forE (py_slice_to chunks stop) (append_chunk write_chunk))
            (\<lambda>u. if stop = Some (- 1) then
                    (if chunks = [] then throwE IndexError
                     else (\<lambda>(cb', s'). (Inr (), (cb'\<lparr>cb_buffer := cb_buffer cb' @ last chunks\<rparr>, s'))))
                  else retE ())
            (cb\<lparr>cb_buffer := []\<rparr>, s))"

text \<open>
  \<open>add(self, item)\<close>; \<open>pack\<close> is \<^verbatim>\<open>self.packer.pack(StableDict(item))\<close>.
\<close>

definition add ::
  "chunker \<Rightarrow> key \<Rightarrow> 's chunk_writer \<Rightarrow> (item \<Rightarrow> bytes) \<Rightarrow> item \<Rightarrow> chunk_buffer \<times> 's \<Rightarrow> (error + unit) \<times> (chunk_buffer \<times> 's)" where
  "add chunkify k write_chunk pack it = (\<lambda>(cb, s).
     let cb' = cb\<lparr>cb_buffer := cb_buffer cb @ pack it\<rparr>
     in if is_full cb' then flush chunkify k write_chunk False (cb', s)
        else (Inr (), (cb', s)))"

text \<open>
  The ids a sequence of \<open>write_chunk\<close> calls returns, in order, up to the first call
  that raises: the reference the flush is compared with.
\<close>

fun write_seq :: "'s chunk_writer \<Rightarrow> bytes list \<Rightarrow> 's \<Rightarrow> (error option \<times> chunk_id list) \<times> 's" where
  "write_seq write_chunk [] s = ((None, []), s)"
| "write_seq write_chunk (c # cs) s =
     (case write_chunk c s of
        (Inl e, s') \<Rightarrow> ((Some e, []), s')
      | (Inr i, s') \<Rightarrow>
          (case write_seq write_chunk cs s' of ((r, ids), s'') \<Rightarrow> ((r, i # ids), s'')))"

section \<open>\<open>ArchiveChecker.rebuild_chunks\<close> (lines 488-594)\<close>

text \<open>What \<open>report_progress\<close> prints; the source formats each as text.\<close>

datatype message =
    MissingFileChunk string nat nat
  | MetadataDamage

text \<open>
  The fields of the checker the repair pass reads and writes. \<open>ck_chunks\<close> is
  \<open>self.chunks\<close>, the rebuilt index from chunk id to \<open>(count, size, csize)\<close>;
  \<open>ck_repository\<close> is the object store behind \<open>self.repository\<close>; \<open>ck_messages\<close>
  is what went to stderr.
\<close>

record checker =
  ck_chunks :: "chunk_id \<rightharpoonup> (int \<times> nat \<times> nat)"
  ck_repository :: "chunk_id \<rightharpoonup> bytes"
  ck_repair :: bool
  ck_progress :: bool
  ck_error_found :: bool
  ck_possibly_superseded :: "chunk_id set"
  ck_messages :: "message list"

definition report_progress :: "message \<Rightarrow> bool \<Rightarrow> checker \<Rightarrow> checker" where
  "report_progress msg err ck =
     (let ck1 = (if err then ck\<lparr>ck_error_found := True\<rparr> else ck)
      in if err \<or> ck_progress ck1 then ck1\<lparr>ck_messages := ck_messages ck1 @ [msg]\<rparr> else ck1)"

text \<open>Lines 492-494.\<close>

definition record_unused :: "chunk_id \<Rightarrow> checker \<Rightarrow> checker" where
  "record_unused i ck =
     (if (case ck_chunks ck i of None \<Rightarrow> 0 | Some (count, sz, csz) \<Rightarrow> count) = 0
      then ck\<lparr>ck_possibly_superseded := insert i (ck_possibly_superseded ck)\<rparr>
      else ck)"

text \<open>
  Lines 502-510. The \<open>KeyError\<close> of \<^verbatim>\<open>self.chunks[id_]\<close> is the \<open>None\<close> branch;
  \<open>cdata\<close> defaults to \<open>None\<close>, and the \<open>assert\<close> raises on it.
\<close>

definition add_reference ::
  "chunk_id \<Rightarrow> nat \<Rightarrow> nat \<Rightarrow> bytes option \<Rightarrow> checker \<Rightarrow> (error + unit) \<times> checker" where
  "add_reference i sz csz cdata ck =
     (case ck_chunks ck i of
        Some (count, sz0, csz0) \<Rightarrow>
          (Inr (), ck\<lparr>ck_chunks := (ck_chunks ck)(i \<mapsto> (count + 1, sz, csz))\<rparr>)
      | None \<Rightarrow>
          (case cdata of
             None \<Rightarrow> (Inl AssertionError, ck)
           | Some cd \<Rightarrow>
               (let ck1 = ck\<lparr>ck_chunks := (ck_chunks ck)(i \<mapsto> (1, sz, csz))\<rparr>
                in (Inr (), if ck_repair ck1
                            then ck1\<lparr>ck_repository := (ck_repository ck1)(i \<mapsto> cd)\<rparr>
                            else ck1))))"

text \<open>Lines 496-500: the \<open>write_chunk\<close> of the repair buffer.\<close>

definition add_callback :: "key \<Rightarrow> bytes \<Rightarrow> checker \<Rightarrow> (error + chunk_id) \<times> checker" where
  "add_callback k chunk =
     bindE (add_reference (id_hash k chunk) (length chunk) (length (encrypt k chunk))
              (Some (encrypt k chunk)))
       (\<lambda>u. retE (id_hash k chunk))"

text \<open>\<^verbatim>\<open>bytes(size)\<close>: \<open>size\<close> zero bytes.\<close>

definition zeros :: "nat \<Rightarrow> bytes" where
  "zeros n = replicate n (CHR 0x00)"

text \<open>
  Lines 512-528. The loop of \<open>verify_file_chunks\<close> over \<^verbatim>\<open>item[b'chunks']\<close>, with its
  two accumulators \<open>offset\<close> and \<open>chunk_list\<close>; \<open>sz\<close> and \<open>csz\<close> are the source's
  \<open>size\<close> and \<open>csize\<close>.
\<close>

fun verify_loop ::
  "key \<Rightarrow> string \<Rightarrow> chunk_ref list \<Rightarrow> nat \<Rightarrow> chunk_ref list \<Rightarrow> checker \<Rightarrow> (error + chunk_ref list) \<times> checker" where
  "verify_loop k path [] offset chunk_list ck = (Inr chunk_list, ck)"
| "verify_loop k path ((chunk_id, sz, csz) # rest) offset chunk_list ck =
     (if chunk_id \<notin> dom (ck_chunks ck) then
        (let ck1 = report_progress (MissingFileChunk path offset (offset + sz)) True ck;
             data = zeros sz;
             chunk_id' = id_hash k data;
             cdata = encrypt k data;
             csz' = length cdata
         in case add_reference chunk_id' sz csz' (Some cdata) ck1 of
              (Inl e, ck2) \<Rightarrow> (Inl e, ck2)
            | (Inr u, ck2) \<Rightarrow>
                verify_loop k path rest (offset + sz) (chunk_list @ [(chunk_id', sz, csz')]) ck2)
      else
        (case add_reference chunk_id sz csz None ck of
           (Inl e, ck2) \<Rightarrow> (Inl e, ck2)
         | (Inr u, ck2) \<Rightarrow>
             verify_loop k path rest (offset + sz) (chunk_list @ [(chunk_id, sz, csz)]) ck2))"

definition verify_file_chunks :: "key \<Rightarrow> item \<Rightarrow> checker \<Rightarrow> (error + item) \<times> checker" where
  "verify_file_chunks k it ck =
     (case i_chunks it of
        None \<Rightarrow> (Inl (KeyError ''chunks''), ck)
      | Some refs \<Rightarrow>
          (case verify_loop k (i_path it) refs 0 [] ck of
             (Inl e, ck') \<Rightarrow> (Inl e, ck')
           | (Inr chunk_list, ck') \<Rightarrow> (Inr (it\<lparr>i_chunks := Some chunk_list\<rparr>), ck')))"

subsection \<open>\<open>msgpack_resync\<close> and \<open>robust_iterator\<close> (lines 530-563)\<close>

text \<open>
  Lines 530-538. \<^verbatim>\<open>next(unpacker)\<close> on data that holds no complete object raises
  \<open>StopIteration\<close>; when the loop runs out of data the function returns \<open>None\<close>.
\<close>

fun msgpack_resync :: "unpacker \<Rightarrow> bytes \<Rightarrow> error + bytes option" where
  "msgpack_resync unpack [] = Inr None"
| "msgpack_resync unpack (b # bs) =
     (case fst (unpack (b # bs)) of
        [] \<Rightarrow> Inl StopIteration
      | ob # obs \<Rightarrow>
          (case ob of Dict it \<Rightarrow> Inr (Some (b # bs)) | Other \<Rightarrow> msgpack_resync unpack bs))"

text \<open>
  Lines 543-547. \<open>state\<close> is the \<open>nonlocal\<close> variable; the result is the value
  returned, which is also the new \<open>state\<close>.
\<close>

definition missing_chunk_detector :: "(chunk_id \<Rightarrow> bool) \<Rightarrow> chunk_id \<Rightarrow> nat \<Rightarrow> nat" where
  "missing_chunk_detector present chunk_id state =
     (if state mod 2 \<noteq> (if \<not> present chunk_id then 1 else 0) then state + 1 else state)"

text \<open>
  \<^verbatim>\<open>list(items)\<close> on a group of \<^verbatim>\<open>itertools.groupby\<close>: after the group's first element
  the grouper pulls ids from the shared iterator and calls the key function on each,
  until one has another key (that id and its key are kept for the next group) or the
  ids run out. Result: the rest of the group, the id kept with its key, the ids not yet
  pulled, and \<open>state\<close> after the key function's calls.
\<close>

fun grouper ::
  "(chunk_id \<Rightarrow> bool) \<Rightarrow> nat \<Rightarrow> chunk_id list \<Rightarrow> nat \<Rightarrow> chunk_id list \<times> (chunk_id \<times> nat) option \<times> chunk_id list \<times> nat" where
  "grouper present tgtkey [] state = ([], None, [], state)"
| "grouper present tgtkey (x # xs) state =
     (let key' = missing_chunk_detector present x state in
      if key' = tgtkey then
        (case grouper present tgtkey xs key' of (g, kept, rest, state') \<Rightarrow> (x # g, kept, rest, state'))
      else ([], Some (x, key'), xs, key'))"

lemma grouper_kept_length:
  "grouper present tgtkey xs state = (g, Some yk, rest, state') \<Longrightarrow> length rest < length xs"
proof (induction xs arbitrary: g state)
  case Nil
  then show ?case by simp
next
  case (Cons x xs)
  then show ?case
    by (auto simp: Let_def split: if_splits prod.splits) fastforce
qed

text \<open>
  How the generator \<open>robust_iterator\<close> ends: its ids ran out, it reached the
  \<^verbatim>\<open>return\<close> of line 555, or an exception left it.
\<close>

datatype ending = Exhausted | Damage | Raised error

text \<open>
  Lines 557-563, the loop over one group's chunks. \<open>state\<close> is the \<open>nonlocal\<close>
  variable as \<^verbatim>\<open>list(items)\<close> left it, \<open>buf\<close> the bytes the unpacker holds, \<open>out\<close> the
  objects yielded so far. \<^verbatim>\<open>unpacker.feed(None)\<close> is a \<open>TypeError\<close>.
\<close>

fun feed_chunks ::
  "key \<Rightarrow> unpacker \<Rightarrow> (chunk_id \<rightharpoonup> bytes) \<Rightarrow> nat \<Rightarrow> nat \<Rightarrow> chunk_id list \<Rightarrow> bytes \<Rightarrow> obj list \<Rightarrow> error option \<times> obj list \<times> bytes" where
  "feed_chunks k unpack repo state i [] buf out = (None, out, buf)"
| "feed_chunks k unpack repo state i (chunk_id # ids) buf out =
     (case repo chunk_id of
        None \<Rightarrow> (Some (FetchFailed chunk_id), out, buf)
      | Some cdata \<Rightarrow>
          (case decrypt k chunk_id cdata of
             None \<Rightarrow> (Some (FetchFailed chunk_id), out, buf)
           | Some data \<Rightarrow>
               (case (if state \<noteq> 0 \<and> i = 0 then msgpack_resync unpack data else Inr (Some data)) of
                  Inl e \<Rightarrow> (Some e, out, buf)
                | Inr None \<Rightarrow> (Some TypeError, out, buf)
                | Inr (Some data') \<Rightarrow>
                    (case unpack (buf @ data') of
                       (obs, buf') \<Rightarrow> feed_chunks k unpack repo state (i + 1) ids buf' (out @ obs)))))"

text \<open>
  Lines 549-563, one turn of the \<^verbatim>\<open>for state, items in groupby(...)\<close> loop for the
  group that starts with id \<open>x\<close> and has key \<open>state\<close>; \<open>rest\<close> are the ids not yet
  pulled from the iterator.
\<close>

function robust_groups ::
  "key \<Rightarrow> unpacker \<Rightarrow> (chunk_id \<Rightarrow> bool) \<Rightarrow> (chunk_id \<rightharpoonup> bytes) \<Rightarrow> chunk_id \<times> nat \<Rightarrow> chunk_id list \<Rightarrow> nat option \<Rightarrow> bytes \<Rightarrow> obj list \<Rightarrow> obj list \<times> ending" where
  "robust_groups k unpack present repo (x, state) rest prev_state buf out =
     (let buf1 = (if Some state \<noteq> prev_state then [] else buf);
          prev_state1 = (if Some state \<noteq> prev_state then Some state else prev_state)
      in if state mod 2 = 1 then (out, Damage)
         else
           (case grouper present state rest state of
              (g, kept, rest', state') \<Rightarrow>
                (case feed_chunks k unpack repo state' 0 (x # g) buf1 out of
                   (Some e, out', buf') \<Rightarrow> (out', Raised e)
                 | (None, out', buf') \<Rightarrow>
                     (case kept of
                        None \<Rightarrow> (out', Exhausted)
                      | Some yk \<Rightarrow> robust_groups k unpack present repo yk rest' prev_state1 buf' out'))))"
  by pat_completeness auto
termination
  by (relation "measure (\<lambda>(k, unpack, present, repo, xk, rest, prev_state, buf, out). length rest)")
     (auto simp del: feed_chunks.simps dest: grouper_kept_length[OF sym])

declare robust_groups.simps [simp del]

text \<open>
  The generator as a whole: the objects it yields and how it ends. \<open>groupby\<close> calls
  the key function on the first id with \<open>state = 0\<close>. The report of line 554 is made
  when the generator ends at line 555.
\<close>

definition robust_iterator ::
  "key \<Rightarrow> unpacker \<Rightarrow> chunk_id list \<Rightarrow> checker \<Rightarrow> (obj list \<times> ending) \<times> checker" where
  "robust_iterator k unpack items ck =
     (let present = (\<lambda>i. i \<in> dom (ck_chunks ck));
          r = (case items of
                 [] \<Rightarrow> ([], Exhausted)
               | x # xs \<Rightarrow>
                   robust_groups k unpack present (ck_repository ck)
                     (x, missing_chunk_detector present x 0) xs None [] [])
      in (r, if snd r = Damage then report_progress MetadataDamage True ck else ck))"

section \<open>The archive, the cache, the repository and the manifest\<close>

text \<open>
  Calls on the collaborators that leave the process, in the order made.
\<close>

datatype event =
    ManifestWrite
  | RepositoryCommit
  | CacheCommit
  | CacheBeginTxn
  | CacheRollback
  | RepositoryPut chunk_id
  | FileOpen string

text \<open>The fields of an \<^verbatim>\<open>os.stat\<close> result the ingest reads (\<open>st_mtime_ns\<close> through
  attic.helpers).\<close>

record stat =
  st_mode :: nat
  st_ino :: nat
  st_dev :: nat
  st_nlink :: nat
  st_uid :: nat
  st_gid :: nat
  st_rdev :: nat
  st_mtime_ns :: int

text \<open>The archive metadata block that \<open>save\<close> packs.\<close>

record metadata =
  md_version :: nat
  md_name :: string
  md_items :: "chunk_id list"
  md_cmdline :: "string list"
  md_hostname :: string
  md_username :: string
  md_time :: string


text \<open>
  One state for the \<open>Archive\<close> object and the objects it holds references to.
  \<open>a_...\<close> are fields of the archive itself (\<open>a_id\<close> is \<open>self.id\<close>, unset until
  \<open>load\<close> or \<open>save\<close>; \<open>a_metadata_items\<close> is \<^verbatim>\<open>self.metadata[b'items']\<close> of a loaded
  archive; \<open>a_nfiles\<close> is \<^verbatim>\<open>self.stats.nfiles\<close>); \<open>cache_...\<close> is the cache, the one
  object that \<open>self.cache\<close> and the \<open>cache\<close> argument of \<open>calc_stats\<close>, \<open>delete\<close> and
  \<open>process_file\<close> both name; \<open>repo_objects\<close> is the repository's object store;
  \<open>manifest_archives\<close> is \<^verbatim>\<open>manifest.archives\<close>, name to \<open>(id, time)\<close>. \<open>clock\<close>
  counts the readings of the time so far.
\<close>

record world =
  a_cwd :: string
  a_name :: string
  a_checkpoint_name :: string
  a_checkpoint_interval :: int
  a_last_checkpoint :: int
  a_numeric_owner :: bool
  a_hard_links :: "nat \<times> nat \<rightharpoonup> string"
  a_items_buffer :: chunk_buffer
  a_id :: "chunk_id option"
  a_metadata_items :: "chunk_id list"
  a_nfiles :: nat
  cache_chunks :: "chunk_id \<rightharpoonup> (int \<times> nat \<times> nat)"
  cache_files :: "chunk_id \<rightharpoonup> (stat \<times> chunk_id list)"
  cache_txn :: "((chunk_id \<rightharpoonup> (int \<times> nat \<times> nat)) \<times> (chunk_id \<rightharpoonup> (stat \<times> chunk_id list))) option"
  repo_objects :: "chunk_id \<rightharpoonup> bytes"
  manifest_archives :: "string \<rightharpoonup> (chunk_id \<times> string)"
  clock :: nat
  events :: "event list"

text \<open>
  What the ingest reads from outside: the key, the chunker, msgpack
  (\<open>e_pack\<close> for an item, \<open>e_packb\<close> for the metadata block, \<open>e_unpack\<close>), the time
  (\<^verbatim>\<open>time.time()\<close> and \<^verbatim>\<open>datetime.utcnow().isoformat()\<close> at the n-th reading),
  \<^verbatim>\<open>sys.argv\<close>, the host and user names, the file system being backed up
  (\<open>e_read_file\<close>: the bytes of a file, or the errno \<open>open\<close> raises; \<open>e_xattrs\<close>:
  \<^verbatim>\<open>xattr.get_all\<close>), the name lookups and \<open>make_path_safe\<close> of attic.helpers.
  \<open>e_io_error\<close> says whether \<^verbatim>\<open>manifest.write()\<close>, \<^verbatim>\<open>repository.commit()\<close> or
  \<^verbatim>\<open>cache.commit()\<close> raises, given the events before it.
\<close>

record env =
  e_key :: key
  e_chunkify :: chunker
  e_pack :: "item \<Rightarrow> bytes"
  e_packb :: "metadata \<Rightarrow> bytes"
  e_unpack :: unpacker
  e_time :: "nat \<Rightarrow> int"
  e_utcnow :: "nat \<Rightarrow> string"
  e_argv :: "string list"
  e_hostname :: string
  e_getuser :: string
  e_read_file :: "string \<Rightarrow> errno + bytes"
  e_xattrs :: "string \<Rightarrow> (bytes \<times> bytes) list"
  e_uid2user :: "nat \<Rightarrow> string option"
  e_gid2group :: "nat \<Rightarrow> string option"
  e_make_path_safe :: "string \<Rightarrow> string"
  e_io_error :: "event list \<Rightarrow> event \<Rightarrow> error option"

subsection \<open>The cache\<close>

text \<open>
  Modelled from the spec: the class \<open>Cache\<close> (attic.cache) is not in the repository's
  files. The spec's section 6 gives its contract: \<open>chunks\<close> is the map from id to
  \<open>(count, size, csize)\<close>; \<open>add_chunk(id, plaintext, stats)\<close> "inserts or increments"
  and returns \<open>(id, size, csize)\<close>, the cache being "write-through" to the repository;
  \<open>chunk_incref\<close> and \<open>chunk_decref\<close> move the count by one (section 3: a count of
  0 means eligible for deletion, which a later pass does); \<open>seen_chunk\<close> says whether an
  id is present; \<open>memorize_file\<close> stores the ids under the path hash and
  \<open>file_known_and_unchanged\<close> returns them while the stat is the one stored;
  \<open>begin_txn\<close>, \<open>commit\<close> and \<open>rollback\<close> bracket a transaction. A lookup of an id
  that is absent is the map's \<open>KeyError\<close>. What the cache does with the \<open>stats\<close>
  argument the spec does not say, and the model does not track it.
\<close>

definition seen_chunk :: "world \<Rightarrow> chunk_id \<Rightarrow> bool" where
  "seen_chunk w i = (i \<in> dom (cache_chunks w))"

definition chunk_incref :: "chunk_id \<Rightarrow> world \<Rightarrow> (error + chunk_ref) \<times> world" where
  "chunk_incref i w =
     (case cache_chunks w i of
        None \<Rightarrow> (Inl (KeyError i), w)
      | Some (count, sz, csz) \<Rightarrow>
          (Inr (i, sz, csz), w\<lparr>cache_chunks := (cache_chunks w)(i \<mapsto> (count + 1, sz, csz))\<rparr>))"

definition add_chunk :: "key \<Rightarrow> chunk_id \<Rightarrow> bytes \<Rightarrow> world \<Rightarrow> (error + chunk_ref) \<times> world" where
  "add_chunk k i data w =
     (if seen_chunk w i then chunk_incref i w
      else (Inr (i, length data, length (encrypt k data)),
            w\<lparr>cache_chunks := (cache_chunks w)(i \<mapsto> (1, length data, length (encrypt k data))),
              repo_objects := (repo_objects w)(i \<mapsto> encrypt k data),
              events := events w @ [RepositoryPut i]\<rparr>))"

definition chunk_decref :: "chunk_id \<Rightarrow> world \<Rightarrow> (error + unit) \<times> world" where
  "chunk_decref i w =
     (case cache_chunks w i of
        None \<Rightarrow> (Inl (KeyError i), w)
      | Some (count, sz, csz) \<Rightarrow>
          (Inr (), w\<lparr>cache_chunks := (cache_chunks w)(i \<mapsto> (count - 1, sz, csz))\<rparr>))"

definition file_known_and_unchanged :: "world \<Rightarrow> chunk_id \<Rightarrow> stat \<Rightarrow> chunk_id list option" where
  "file_known_and_unchanged w path_hash st =
     (case cache_files w path_hash of
        None \<Rightarrow> None
      | Some (st', ids) \<Rightarrow> if st' = st then Some ids else None)"

definition memorize_file :: "chunk_id \<Rightarrow> stat \<Rightarrow> chunk_id list \<Rightarrow> world \<Rightarrow> world" where
  "memorize_file path_hash st ids w = w\<lparr>cache_files := (cache_files w)(path_hash \<mapsto> (st, ids))\<rparr>"



text \<open>The reference count of an id: 0 for an id the index does not hold.\<close>

definition refcount :: "world \<Rightarrow> chunk_id \<Rightarrow> int" where
  "refcount w i = (case cache_chunks w i of None \<Rightarrow> 0 | Some (count, sz, csz) \<Rightarrow> count)"

subsection \<open>The three persistence calls\<close>

text \<open>Each is recorded when it is called; it may then raise.\<close>

definition persist :: "env \<Rightarrow> event \<Rightarrow> world \<Rightarrow> (error + unit) \<times> world" where
  "persist E ev w =
     (case e_io_error E (events w) ev of
        Some e \<Rightarrow> (Inl e, w\<lparr>events := events w @ [ev]\<rparr>)
      | None \<Rightarrow> (Inr (), w\<lparr>events := events w @ [ev]\<rparr>))"

definition manifest_write :: "env \<Rightarrow> world \<Rightarrow> (error + unit) \<times> world" where
  "manifest_write E = persist E ManifestWrite"

definition repository_commit :: "env \<Rightarrow> world \<Rightarrow> (error + unit) \<times> world" where
  "repository_commit E = persist E RepositoryCommit"

definition cache_commit :: "env \<Rightarrow> world \<Rightarrow> (error + unit) \<times> world" where
  "cache_commit E = bindE (persist E CacheCommit) (\<lambda>u w. (Inr (), w\<lparr>cache_txn := None\<rparr>))"

subsection \<open>\<open>CacheChunkBuffer\<close> (lines 91-100) and the archive's \<open>items_buffer\<close>\<close>

definition cache_write_chunk :: "key \<Rightarrow> world chunk_writer" where
  "cache_write_chunk k chunk = bindE (add_chunk k (id_hash k chunk) chunk) (\<lambda>r. retE (fst r))"

text \<open>A method of \<open>self.items_buffer\<close>, run on the buffer the archive holds.\<close>

definition on_items_buffer ::
  "(chunk_buffer \<times> world \<Rightarrow> (error + unit) \<times> (chunk_buffer \<times> world)) \<Rightarrow> world \<Rightarrow> (error + unit) \<times> world" where
  "on_items_buffer m w =
     (case m (a_items_buffer w, w) of (r, (cb', w')) \<Rightarrow> (r, w'\<lparr>a_items_buffer := cb'\<rparr>))"

definition flush_items :: "env \<Rightarrow> bool \<Rightarrow> world \<Rightarrow> (error + unit) \<times> world" where
  "flush_items E final =
     on_items_buffer (flush (e_chunkify E) (e_key E) (cache_write_chunk (e_key E)) final)"

subsection \<open>\<open>save\<close>, \<open>write_checkpoint\<close>, \<open>add_item\<close> (lines 164-196)\<close>

text \<open>
  \<open>save(self, name=None)\<close>. \<^verbatim>\<open>name or self.name\<close> takes \<open>self.name\<close> also for an empty
  \<open>name\<close>.
\<close>

text \<open>Lines 181-189: the metadata block, read after the flush.\<close>

definition archive_metadata :: "env \<Rightarrow> string \<Rightarrow> world \<Rightarrow> metadata" where
  "archive_metadata E name w =
     \<lparr>md_version = 1, md_name = name, md_items = cb_chunks (a_items_buffer w),
      md_cmdline = e_argv E, md_hostname = e_hostname E, md_username = e_getuser E,
      md_time = e_utcnow E (clock w)\<rparr>"

definition save :: "env \<Rightarrow> string option \<Rightarrow> world \<Rightarrow> (error + unit) \<times> world" where
  "save E name_arg w =
     (let name = (case name_arg of None \<Rightarrow> a_name w | Some n \<Rightarrow> if n \<noteq> [] then n else a_name w)
      in if name \<in> dom (manifest_archives w) then (Inl (AlreadyExists name), w)
         else
           bindE (flush_items E True)
             (\<lambda>u w1.
                let md = archive_metadata E name w1;
                    data = e_packb E md;
                    w2 = w1\<lparr>clock := clock w1 + 1, a_id := Some (id_hash (e_key E) data)\<rparr>
                in bindE (add_chunk (e_key E) (id_hash (e_key E) data) data)
                     (\<lambda>r w3.
                        bindE (manifest_write E)
                          (\<lambda>u. bindE (repository_commit E) (\<lambda>u. cache_commit E))
                          (w3\<lparr>manifest_archives :=
                                (manifest_archives w3)(name \<mapsto> (id_hash (e_key E) data, md_time md))\<rparr>))
                     w2)
             w)"

text \<open>
  Lines 171-174. \<^verbatim>\<open>del self.manifest.archives[...]\<close> of an absent name is a
  \<open>KeyError\<close>; reading \<open>self.id\<close> before it is set is an \<open>AttributeError\<close>.
\<close>

definition write_checkpoint :: "env \<Rightarrow> world \<Rightarrow> (error + unit) \<times> world" where
  "write_checkpoint E w =
     bindE (save E (Some (a_checkpoint_name w)))
       (\<lambda>u w1.
          if a_checkpoint_name w1 \<notin> dom (manifest_archives w1)
          then (Inl (KeyError (a_checkpoint_name w1)), w1)
          else
            (let w2 = w1\<lparr>manifest_archives := (manifest_archives w1)(a_checkpoint_name w1 := None)\<rparr>
             in case a_id w2 of
                  None \<Rightarrow> (Inl (AttributeError ''id''), w2)
                | Some i \<Rightarrow> chunk_decref i w2))
       w"

definition add_item :: "env \<Rightarrow> item \<Rightarrow> world \<Rightarrow> (error + unit) \<times> world" where
  "add_item E it =
     bindE (on_items_buffer
              (add (e_chunkify E) (e_key E) (cache_write_chunk (e_key E)) (e_pack E) it))
       (\<lambda>u w1.
          let now = e_time E (clock w1);
              w2 = w1\<lparr>clock := clock w1 + 1\<rparr>
          in if now - a_last_checkpoint w2 > a_checkpoint_interval w2
             then write_checkpoint E (w2\<lparr>a_last_checkpoint := now\<rparr>)
             else (Inr (), w2))"

subsection \<open>\<open>calc_stats\<close> (lines 198-220)\<close>





subsection \<open>\<open>delete\<close> (lines 319-333)\<close>

definition delete_item :: "obj \<Rightarrow> world \<Rightarrow> (error + unit) \<times> world" where
  "delete_item ob =
     (case ob of
        Other \<Rightarrow> throwE TypeError
      | Dict it \<Rightarrow>
          (case i_chunks it of
             None \<Rightarrow> retE ()
           | Some refs \<Rightarrow> forE (map fst refs) chunk_decref))"

fun delete_loop :: "env \<Rightarrow> chunk_id list \<Rightarrow> bytes \<Rightarrow> world \<Rightarrow> (error + unit) \<times> world" where
  "delete_loop E [] buf w = (Inr (), w)"
| "delete_loop E (i # ids) buf w =
     (case repo_objects w i of
        None \<Rightarrow> (Inl (FetchFailed i), w)
      | Some cdata \<Rightarrow>
          (case decrypt (e_key E) i cdata of
             None \<Rightarrow> (Inl (FetchFailed i), w)
           | Some data \<Rightarrow>
               (case e_unpack E (buf @ data) of
                  (obs, buf') \<Rightarrow>
                    bindE (chunk_decref i)
                      (\<lambda>u. bindE (forE obs delete_item) (\<lambda>u. delete_loop E ids buf'))
                      w)))"

definition delete :: "env \<Rightarrow> world \<Rightarrow> (error + unit) \<times> world" where
  "delete E w0 =
     bindE (delete_loop E (a_metadata_items w0) [])
       (\<lambda>u. bindE (\<lambda>w. case a_id w of
                          None \<Rightarrow> (Inl (AttributeError ''id''), w)
                        | Some i \<Rightarrow> chunk_decref i w)
       (\<lambda>u w2.
          if a_name w2 \<notin> dom (manifest_archives w2) then (Inl (KeyError (a_name w2)), w2)
          else bindE (manifest_write E)
                 (\<lambda>u. bindE (repository_commit E) (\<lambda>u. cache_commit E))
                 (w2\<lparr>manifest_archives := (manifest_archives w2)(a_name w2 := None)\<rparr>)))
       w0"

subsection \<open>\<open>stat_attrs\<close> and \<open>process_file\<close> (lines 335-397)\<close>

text \<open>
  The dict \<open>stat_attrs\<close> returns, as an item whose other keys are still unset; the
  callers merge it with \<open>path\<close> and \<open>chunks\<close> or \<open>source\<close>, keys it does not hold.
\<close>

definition stat_attrs :: "env \<Rightarrow> world \<Rightarrow> stat \<Rightarrow> string \<Rightarrow> item" where
  "stat_attrs E w st path =
     \<lparr>i_path = [], i_mode = st_mode st, i_uid = st_uid st, i_gid = st_gid st,
      i_user = (if a_numeric_owner w then None else e_uid2user E (st_uid st)),
      i_group = (if a_numeric_owner w then None else e_gid2group E (st_gid st)),
      i_mtime = st_mtime_ns st, i_rdev = None, i_source = None, i_chunks = None,
      i_xattrs = (if e_xattrs E path \<noteq> [] then Some (e_xattrs E path) else None)\<rparr>"

text \<open>
  Lines 389-393: the file is opened, split by the chunker, every chunk goes through
  \<open>add_chunk\<close>, and the ids are memorized.
\<close>

definition chunkify_file ::
  "env \<Rightarrow> string \<Rightarrow> chunk_id \<Rightarrow> stat \<Rightarrow> world \<Rightarrow> (error + chunk_ref list) \<times> world" where
  "chunkify_file E path path_hash st w =
     (let w1 = w\<lparr>events := events w @ [FileOpen path]\<rparr> in
      case e_read_file E path of
        Inl e \<Rightarrow> (Inl (OSError e), w1)
      | Inr content \<Rightarrow>
          bindE (mapE (\<lambda>chunk. add_chunk (e_key E) (id_hash (e_key E) chunk) chunk)
                   (e_chunkify E content WINDOW_SIZE CHUNK_MASK CHUNK_MIN (chunk_seed (e_key E))))
            (\<lambda>chunks w2. (Inr chunks, memorize_file path_hash st (map fst chunks) w2))
            w1)"

text \<open>
  Lines 378-386: the memo lookup, the \<^verbatim>\<open>for ... else\<close> over \<open>seen_chunk\<close>, and the
  list comprehension over \<open>chunk_incref\<close>. \<open>None\<close> is \<^verbatim>\<open>chunks = None\<close>.
\<close>

definition known_chunks :: "chunk_id \<Rightarrow> stat \<Rightarrow> world \<Rightarrow> (error + chunk_ref list option) \<times> world" where
  "known_chunks path_hash st w =
     (case file_known_and_unchanged w path_hash st of
        None \<Rightarrow> (Inr None, w)
      | Some ids \<Rightarrow>
          if list_all (seen_chunk w) ids
          then bindE (mapE chunk_incref ids) (\<lambda>chunks. retE (Some chunks)) w
          else (Inr None, w))"

text \<open>Lines 368-376 for a file that is not a link to an inode seen before.\<close>

definition record_hard_link :: "env \<Rightarrow> string \<Rightarrow> stat \<Rightarrow> world \<Rightarrow> world" where
  "record_hard_link E path st w =
     (if st_nlink st > 1
      then w\<lparr>a_hard_links := (a_hard_links w)((st_ino st, st_dev st) \<mapsto> e_make_path_safe E path)\<rparr>
      else w)"

text \<open>Line 377; the encoding of the joined path to bytes is the identity here.\<close>

definition path_hash_of :: "env \<Rightarrow> world \<Rightarrow> string \<Rightarrow> chunk_id" where
  "path_hash_of E w path = id_hash (e_key E) (join (a_cwd w) path)"

text \<open>Lines 394-395: the item of a regular file.\<close>

definition file_item :: "env \<Rightarrow> world \<Rightarrow> string \<Rightarrow> stat \<Rightarrow> chunk_ref list \<Rightarrow> item" where
  "file_item E w path st chunks =
     (stat_attrs E w st path)\<lparr>i_path := e_make_path_safe E path, i_chunks := Some chunks\<rparr>"

definition process_file :: "env \<Rightarrow> string \<Rightarrow> stat \<Rightarrow> world \<Rightarrow> (error + unit) \<times> world" where
  "process_file E path st w =
     (if st_nlink st > 1 \<and> (st_ino st, st_dev st) \<in> dom (a_hard_links w) then
        add_item E
          ((stat_attrs E w st path)
             \<lparr>i_path := e_make_path_safe E path,
              i_source := a_hard_links w (st_ino st, st_dev st)\<rparr>) w
      else
        bindE (known_chunks (path_hash_of E w path) st)
          (\<lambda>known.
             bindE (case known of
                      Some chunks \<Rightarrow> retE chunks
                    | None \<Rightarrow> chunkify_file E path (path_hash_of E w path) st)
               (\<lambda>chunks w3.
                  add_item E (file_item E w3 path st chunks) (w3\<lparr>a_nfiles := a_nfiles w3 + 1\<rparr>)))
          (record_hard_link E path st w))"

section \<open>Notions used to state and prove the properties\<close>

subsection \<open>Restore\<close>

text \<open>
  The calls \<open>restore_attrs\<close> makes: every call that sets an extended attribute, the
  owner, the mode or the modification time.
\<close>

definition is_attr_call :: "syscall \<Rightarrow> bool" where
  "is_attr_call c =
     (case c of
        SetxattrFd n k v \<Rightarrow> True | SetxattrPath p k v \<Rightarrow> True
      | Fchown n u g \<Rightarrow> True | Lchown p u g \<Rightarrow> True
      | Fchmod n m \<Rightarrow> True | Chmod p m \<Rightarrow> True | Lchmod p m \<Rightarrow> True
      | UtimeFdNs n t \<Rightarrow> True | UtimePathNs p t \<Rightarrow> True | UtimeSec p t \<Rightarrow> True
      | _ \<Rightarrow> False)"

text \<open>
  A path as the spec's section 4.4 wants it rejected: it begins with \<open>/\<close> or one of
  its \<open>/\<close>-separated segments is \<open>..\<close>. This follows the spec's words, not the
  source.
\<close>

fun segments :: "string \<Rightarrow> string list" where
  "segments [] = [[]]"
| "segments (c # cs) =
     (if c = CHR ''/'' then [] # segments cs
      else (c # hd (segments cs)) # tl (segments cs))"

definition spec_unsafe_path :: "string \<Rightarrow> bool" where
  "spec_unsafe_path p = (startswith p ''/'' \<or> ''..'' \<in> set (segments p))"

text \<open>
  Three properties of a computation on the call history: it never raises a given
  error; it only appends calls that satisfy \<open>P\<close>; it appends at least one call, and
  only calls that satisfy \<open>P\<close>.
\<close>

definition never_raises :: "error \<Rightarrow> ('s \<Rightarrow> (error + 'a) \<times> 's) \<Rightarrow> bool" where
  "never_raises e m = (\<forall>s. fst (m s) \<noteq> Inl e)"

definition appends :: "(syscall \<Rightarrow> bool) \<Rightarrow> (syscall list \<Rightarrow> (error + 'a) \<times> syscall list) \<Rightarrow> bool" where
  "appends P m = (\<forall>tr. \<exists>cs. snd (m tr) = tr @ cs \<and> list_all P cs)"

definition strictly :: "(syscall \<Rightarrow> bool) \<Rightarrow> (syscall list \<Rightarrow> (error + 'a) \<times> syscall list) \<Rightarrow> bool" where
  "strictly P m = (\<forall>tr. \<exists>c cs. snd (m tr) = tr @ c # cs \<and> P c \<and> list_all P cs)"

subsection \<open>Concrete restore inputs\<close>

text \<open>
  Two operating systems. In \<open>fresh_os\<close> nothing exists (\<open>lstat\<close> and \<open>stat\<close> fail
  with \<open>ENOENT\<close>) and every other call succeeds. In \<open>busy_os\<close> every path is a
  directory that is not empty: \<open>lstat\<close> reports mode \<^verbatim>\<open>0o40755\<close>, \<open>rmdir\<close> fails with
  \<open>ENOTEMPTY\<close>, every other call succeeds.
\<close>

definition fresh_os :: os where
  "fresh_os tr c =
     (case c of Lstat p \<Rightarrow> Inl ENOENT | Stat p \<Rightarrow> Inl ENOENT | OpenWb p \<Rightarrow> Inr 3 | _ \<Rightarrow> Inr 0)"

definition busy_os :: os where
  "busy_os tr c =
     (case c of Lstat p \<Rightarrow> Inr 16877 | Rmdir p \<Rightarrow> Inl ENOTEMPTY | OpenWb p \<Rightarrow> Inr 3 | _ \<Rightarrow> Inr 0)"

definition demo_ctx :: "os \<Rightarrow> restore_ctx" where
  "demo_ctx os =
     \<lparr>cwd = ''/dest'', numeric_owner = True, utime_supports_fd = True, has_lchmod = False,
      user2uid = (\<lambda>u. None), group2gid = (\<lambda>g. None), fetch = (\<lambda>i. Some i), the_os = os\<rparr>"

text \<open>A directory item (mode \<^verbatim>\<open>0o40755\<close>) and a hardlink item (mode \<^verbatim>\<open>0o100644\<close>,
  \<open>source\<close> present).\<close>

definition dir_item :: "string \<Rightarrow> item" where
  "dir_item p =
     \<lparr>i_path = p, i_mode = 16877, i_uid = 1000, i_gid = 1000, i_user = None, i_group = None,
      i_mtime = 0, i_rdev = None, i_source = None, i_chunks = None, i_xattrs = None\<rparr>"

definition link_item :: item where
  "link_item =
     \<lparr>i_path = ''b'', i_mode = 33188, i_uid = 1000, i_gid = 1000, i_user = None, i_group = None,
      i_mtime = 0, i_rdev = None, i_source = Some ''a'', i_chunks = None, i_xattrs = None\<rparr>"

subsection \<open>Concrete checker inputs\<close>

text \<open>
  A toy encoding for item streams: an item is written as its path followed by \<open>;\<close>.
  \<open>toy_unpack\<close> decodes every complete item of the bytes it is given and leaves the
  bytes after the last \<open>;\<close>.
\<close>

definition path_item :: "string \<Rightarrow> item" where
  "path_item p =
     \<lparr>i_path = p, i_mode = 33188, i_uid = 1000, i_gid = 1000, i_user = None, i_group = None,
      i_mtime = 0, i_rdev = None, i_source = None, i_chunks = None, i_xattrs = None\<rparr>"

fun toy_unpack_from :: "string \<Rightarrow> bytes \<Rightarrow> obj list \<times> bytes" where
  "toy_unpack_from cur [] = ([], cur)"
| "toy_unpack_from cur (c # cs) =
     (if c = CHR '';'' then
        (case toy_unpack_from [] cs of (obs, left) \<Rightarrow> (Dict (path_item cur) # obs, left))
      else toy_unpack_from (cur @ [c]) cs)"

definition toy_unpack :: unpacker where
  "toy_unpack data = toy_unpack_from [] data"

text \<open>A key that hashes by prefixing \<open>#\<close>, encrypts by prefixing \<open>E\<close> and decrypts
  by dropping the first byte.\<close>

definition toy_key :: key where
  "toy_key = \<lparr>id_hash = (\<lambda>b. ''#'' @ b), encrypt = (\<lambda>b. ''E'' @ b),
              decrypt = (\<lambda>i c. Some (tl c)), chunk_seed = 0\<rparr>"

text \<open>
  An archive whose item stream was stored in three chunks \<open>c0\<close>, \<open>c1\<close>, \<open>c2\<close>
  holding the items \<open>a b\<close>, \<open>c d\<close> and \<open>e f\<close>; the repository has lost \<open>c1\<close>.
\<close>

definition gap_checker :: checker where
  "gap_checker =
     \<lparr>ck_chunks = [''c0'' \<mapsto> (0, 0, 0), ''c2'' \<mapsto> (0, 0, 0)],
      ck_repository = [''c0'' \<mapsto> ''Ea;b;'', ''c2'' \<mapsto> ''Ee;f;''],
      ck_repair = True, ck_progress = False, ck_error_found = False,
      ck_possibly_superseded = {}, ck_messages = []\<rparr>"

text \<open>
  The reference that stands in for a missing file chunk of \<open>sz\<close> bytes (lines
  519-522): the id of \<open>sz\<close> zero bytes, \<open>sz\<close>, and the length of their encryption.
\<close>

definition zero_ref :: "key \<Rightarrow> nat \<Rightarrow> chunk_ref" where
  "zero_ref k sz = (id_hash k (zeros sz), sz, length (encrypt k (zeros sz)))"

text \<open>
  A checker in repair mode whose index holds the chunk \<open>x\<close> and not \<open>y\<close>, and a file
  item that refers to both.
\<close>

definition repair_checker :: checker where
  "repair_checker =
     \<lparr>ck_chunks = [''x'' \<mapsto> (0, 0, 0)], ck_repository = [''x'' \<mapsto> ''Exx''],
      ck_repair = True, ck_progress = False, ck_error_found = False,
      ck_possibly_superseded = {}, ck_messages = []\<rparr>"

definition two_chunk_item :: item where
  "two_chunk_item = (path_item ''f'')\<lparr>i_chunks := Some [(''x'', 2, 3), (''y'', 1, 2)]\<rparr>"

subsection \<open>Logs and frames\<close>

text \<open>
  A computation only adds to a log (a list read off the state) entries that satisfy
  \<open>P\<close>; and a computation leaves a reading of the state as it was.
\<close>

definition only_adds ::
  "('s \<Rightarrow> 'c list) \<Rightarrow> ('c \<Rightarrow> bool) \<Rightarrow> ('s \<Rightarrow> (error + 'a) \<times> 's) \<Rightarrow> bool" where
  "only_adds log P m = (\<forall>s. \<exists>cs. log (snd (m s)) = log s @ cs \<and> list_all P cs)"

definition preserves :: "('s \<Rightarrow> 'v) \<Rightarrow> ('s \<Rightarrow> (error + 'a) \<times> 's) \<Rightarrow> bool" where
  "preserves f m = (\<forall>s. f (snd (m s)) = f s)"

subsection \<open>The archive's events\<close>

text \<open>
  The three persistence calls, the persistence calls made so far in the order made,
  and the repository writes.
\<close>

definition is_persist :: "event \<Rightarrow> bool" where
  "is_persist ev = (ev = ManifestWrite \<or> ev = RepositoryCommit \<or> ev = CacheCommit)"

definition persistence_calls :: "world \<Rightarrow> event list" where
  "persistence_calls w = filter is_persist (events w)"

definition is_put :: "event \<Rightarrow> bool" where
  "is_put ev = (case ev of RepositoryPut i \<Rightarrow> True | _ \<Rightarrow> False)"

text \<open>
  The order the spec's section 5 asks for, and what it is for a computation to keep
  it: the persistence calls it makes are the first \<open>n\<close> of that order, all three when
  it returns normally.
\<close>

definition commit_sequence :: "event list" where
  "commit_sequence = [ManifestWrite, RepositoryCommit, CacheCommit]"

definition commits_in_order :: "(world \<Rightarrow> (error + 'a) \<times> world) \<Rightarrow> bool" where
  "commits_in_order m =
     (\<forall>w. \<exists>n. persistence_calls (snd (m w)) = persistence_calls w @ take n commit_sequence
              \<and> (isl (fst (m w)) \<or> n = 3))"

subsection \<open>Concrete archive inputs\<close>

text \<open>
  A toy chunker that cuts after every \<open>;\<close>, and an environment built on it: items are
  packed as their path and \<open>;\<close>, the metadata block as the archive's name, \<open>:\<close> and
  its item-chunk ids; every reading of the clock is one second after the one before; no
  persistence call fails; every file holds \<open>data;more;\<close>.
\<close>

fun toy_chunks_from :: "bytes \<Rightarrow> bytes \<Rightarrow> bytes list" where
  "toy_chunks_from cur [] = (if cur = [] then [] else [cur])"
| "toy_chunks_from cur (c # cs) =
     (if c = CHR '';'' then (cur @ [c]) # toy_chunks_from [] cs
      else toy_chunks_from (cur @ [c]) cs)"

definition toy_chunkify :: chunker where
  "toy_chunkify data window_size chunk_mask chunk_min seed = toy_chunks_from [] data"

definition toy_env :: env where
  "toy_env =
     \<lparr>e_key = toy_key, e_chunkify = toy_chunkify,
      e_pack = (\<lambda>it. i_path it @ '';''),
      e_packb = (\<lambda>md. md_name md @ '':'' @ concat (md_items md)),
      e_unpack = toy_unpack,
      e_time = (\<lambda>n. int n), e_utcnow = (\<lambda>n. ''t''),
      e_argv = [], e_hostname = ''h'', e_getuser = ''u'',
      e_read_file = (\<lambda>p. Inr ''data;more;''), e_xattrs = (\<lambda>p. []),
      e_uid2user = (\<lambda>u. None), e_gid2group = (\<lambda>g. None),
      e_make_path_safe = (\<lambda>p. p), e_io_error = (\<lambda>h ev. None)\<rparr>"

text \<open>
  A new archive \<open>A\<close> with nothing in its buffer, in a repository with empty cache and
  manifest; and the same archive after \<open>save\<close>.
\<close>

definition new_world :: world where
  "new_world =
     \<lparr>a_cwd = ''/src'', a_name = ''A'', a_checkpoint_name = ''A.checkpoint'',
      a_checkpoint_interval = 300, a_last_checkpoint = 0, a_numeric_owner = True,
      a_hard_links = Map.empty, a_items_buffer = \<lparr>cb_buffer = [], cb_chunks = []\<rparr>,
      a_id = None, a_metadata_items = [], a_nfiles = 0,
      cache_chunks = Map.empty, cache_files = Map.empty, cache_txn = None,
      repo_objects = Map.empty, manifest_archives = Map.empty, clock = 0, events = []\<rparr>"

definition saved_world :: world where
  "saved_world =
     new_world
       \<lparr>a_id := Some ''#A:'',
        cache_chunks := [''#A:'' \<mapsto> (1, 2, 3)],
        repo_objects := [''#A:'' \<mapsto> ''EA:''],
        manifest_archives := [''A'' \<mapsto> (''#A:'', ''t'')],
        clock := 1,
        events := [RepositoryPut ''#A:'', ManifestWrite, RepositoryCommit, CacheCommit]\<rparr>"

subsection \<open>The checkpoint's metadata block\<close>

text \<open>
  The id \<open>save(self.checkpoint_name)\<close> computes at line 191: the hash of the packed
  metadata block, which is built after the items buffer was flushed.
\<close>

definition checkpoint_id :: "env \<Rightarrow> world \<Rightarrow> chunk_id" where
  "checkpoint_id E w =
     id_hash (e_key E)
       (e_packb E (archive_metadata E (a_checkpoint_name w) (snd (flush_items E True w))))"

definition is_file_open :: "event \<Rightarrow> bool" where
  "is_file_open ev = (case ev of FileOpen p \<Rightarrow> True | _ \<Rightarrow> False)"

text \<open>
  A file \<open>f\<close>, and the new archive with a cache that has memorized it: its two chunks
  are in the index, and its stat is stored under its path hash.
\<close>

definition toy_stat :: stat where
  "toy_stat = \<lparr>st_mode = 33188, st_ino = 7, st_dev = 1, st_nlink = 1, st_uid = 1000,
               st_gid = 1000, st_rdev = 0, st_mtime_ns = 0\<rparr>"

definition memo_world :: world where
  "memo_world =
     new_world
       \<lparr>cache_chunks := [''#data;'' \<mapsto> (1, 5, 6), ''#more;'' \<mapsto> (1, 5, 6)],
        cache_files := [''#/src/f'' \<mapsto> (toy_stat, [''#data;'', ''#more;''])]\<rparr>"









chapter \<open>Properties\<close>

section \<open>Restore\<close>

subsection \<open>No part of the restore path raises the path error but the check itself\<close>

lemma never_raises_retE: "never_raises e (retE x)"
  by (simp add: never_raises_def retE_def)

lemma never_raises_throwE: "e' \<noteq> e \<Longrightarrow> never_raises e (throwE e')"
  by (simp add: never_raises_def throwE_def)

lemma never_raises_bindE:
  "never_raises e m \<Longrightarrow> (\<And>x. never_raises e (f x)) \<Longrightarrow> never_raises e (bindE m f)"
  unfolding never_raises_def bindE_def
  by (auto split: prod.splits sum.splits) (metis fst_conv)+

lemma never_raises_forE:
  "(\<And>x. never_raises e (body x)) \<Longrightarrow> never_raises e (forE xs body)"
  unfolding never_raises_def
proof (induction xs)
  case Nil
  then show ?case by simp
next
  case (Cons x xs)
  show ?case
  proof
    fix s
    show "fst (forE (x # xs) body s) \<noteq> Inl e"
      using Cons.prems[of x] Cons.IH[OF Cons.prems]
      by (auto split: prod.splits sum.splits) (metis fst_conv)
  qed
qed

lemma never_raises_ignore:
  "never_raises e m \<Longrightarrow> never_raises e (ignore_OSError m)"
  unfolding never_raises_def ignore_OSError_def
  by (auto split: prod.splits sum.splits error.splits) (metis fst_conv)+

lemma never_raises_sys: "never_raises UnsafePath (sys os c)"
  by (simp add: never_raises_def sys_def split: sum.splits)

lemma never_raises_sys_unit: "never_raises UnsafePath (sys_unit os c)"
  unfolding sys_unit_def by (intro never_raises_bindE never_raises_sys never_raises_retE)

lemma never_raises_exists: "never_raises UnsafePath (exists os p)"
  by (simp add: never_raises_def exists_def split: sum.splits)

lemma never_raises_if:
  "never_raises e a \<Longrightarrow> never_raises e b \<Longrightarrow> never_raises e (if c then a else b)"
  by simp

lemma never_raises_set_one_xattr: "never_raises UnsafePath (set_one_xattr os p fd kv)"
  using never_raises_sys_unit[of os]
  unfolding never_raises_def set_one_xattr_def
  by (auto split: prod.splits sum.splits error.splits) (metis fst_conv)+

lemma never_raises_restore_attrs: "never_raises UnsafePath (restore_attrs R p it sl fd)"
  unfolding restore_attrs_def Let_def
  by (intro never_raises_bindE never_raises_if never_raises_ignore never_raises_sys_unit
        never_raises_retE)
     (auto split: option.splits intro!: never_raises_retE never_raises_forE never_raises_set_one_xattr)

lemma never_raises_closing:
  "never_raises UnsafePath body \<Longrightarrow> never_raises UnsafePath (closing os n body)"
  using never_raises_sys_unit[of os "CloseFd n"]
  unfolding never_raises_def closing_def
  by (auto split: prod.splits sum.splits) (metis fst_conv)+

lemma never_raises_write_file: "never_raises UnsafePath (write_file R p it)"
  unfolding write_file_def
  by (intro never_raises_bindE never_raises_sys never_raises_closing)
     (auto split: option.splits
           intro!: never_raises_bindE never_raises_forE never_raises_throwE never_raises_sys_unit
                   never_raises_restore_attrs)

lemma never_raises_ensure_dir: "never_raises UnsafePath (ensure_dir os d)"
  unfolding ensure_dir_def
  by (intro never_raises_bindE never_raises_exists never_raises_if never_raises_sys_unit never_raises_retE)

lemma never_raises_unlink_if_exists: "never_raises UnsafePath (unlink_if_exists os d)"
  unfolding unlink_if_exists_def
  by (intro never_raises_bindE never_raises_exists never_raises_if never_raises_sys_unit never_raises_retE)

lemma never_raises_remove_existing: "never_raises UnsafePath (remove_existing os d)"
  unfolding remove_existing_def
  by (intro never_raises_ignore never_raises_bindE never_raises_sys never_raises_if never_raises_sys_unit)

lemma never_raises_materialize: "never_raises UnsafePath (materialize R it ra p)"
  unfolding materialize_def Let_def
  by (intro never_raises_if never_raises_bindE never_raises_ensure_dir never_raises_restore_attrs
        never_raises_retE never_raises_sys_unit never_raises_throwE)
     (auto split: option.splits
           intro!: never_raises_bindE never_raises_unlink_if_exists never_raises_sys_unit
                   never_raises_write_file never_raises_throwE never_raises_restore_attrs)

text \<open>Unfolding the restore path on a concrete input.\<close>

lemmas restore_eval =
  extract_item_def materialize_def remove_existing_def ensure_dir_def unlink_if_exists_def
  write_file_def closing_def restore_attrs_def set_one_xattr_def drain_chunks_def
  sys_def sys_unit_def exists_def bindE_def retE_def throwE_def ignore_OSError_def
  startswith_def endswith_def join_def dirname_def rstrip_slash_def
  S_IFMT_def S_ISDIR_def S_ISREG_def S_ISFIFO_def S_ISLNK_def S_ISCHR_def S_ISBLK_def
  py_or_def fd_true_def Let_def

lemmas demo_eval = fresh_os_def busy_os_def demo_ctx_def dir_item_def link_item_def

text \<open>
  C1 (amended). With \<open>dry_run = False\<close>, \<open>extract_item\<close> raises the path error
  exactly when the item's path begins with \<open>/\<close> or begins with the two characters
  \<open>..\<close>; when it does, no call has been made: the history is the one it started with.
\<close>

theorem extract_item_path_check:
  "(fst (extract_item R it ra False tr) = Inl UnsafePath)
     = (startswith (i_path it) ''/'' \<or> startswith (i_path it) ''..'')
   \<and> (fst (extract_item R it ra False tr) = Inl UnsafePath
        \<longrightarrow> snd (extract_item R it ra False tr) = tr)"
proof (cases "startswith (i_path it) ''/'' \<or> startswith (i_path it) ''..''")
  case True
  then show ?thesis by (simp add: extract_item_def throwE_def)
next
  case False
  have "never_raises UnsafePath
          (bindE (remove_existing (the_os R) (join (cwd R) (i_path it)))
             (\<lambda>u. materialize R it ra (join (cwd R) (i_path it))))"
    by (intro never_raises_bindE never_raises_remove_existing never_raises_materialize)
  then have "fst (extract_item R it ra False tr) \<noteq> Inl UnsafePath"
    using False by (simp add: extract_item_def never_raises_def)
  with False show ?thesis by simp
qed

theorem extract_item_path_check_witness:
  "fst (extract_item (demo_ctx fresh_os) (dir_item ''/etc'') True False []) = Inl UnsafePath
   \<and> snd (extract_item (demo_ctx fresh_os) (dir_item ''/etc'') True False []) = []"
  using extract_item_path_check[of "demo_ctx fresh_os" "dir_item ''/etc''" True "[]"]
  by (simp add: startswith_def dir_item_def)

text \<open>
  C1 as stated fails both ways. The path \<open>a/../../b\<close> has a \<open>..\<close> segment and is
  restored: on a fresh destination the directory \<open>/dest/a/../../b\<close> is created. The
  path \<open>..b\<close> begins with no \<open>/\<close> and has no \<open>..\<close> segment, and is rejected.
\<close>

theorem extract_item_accepts_inner_dotdot:
  "spec_unsafe_path ''a/../../b''
   \<and> extract_item (demo_ctx fresh_os) (dir_item ''a/../../b'') False False []
       = (Inr (), [Lstat ''/dest/a/../../b'', Stat ''/dest/a/../../b'', Makedirs ''/dest/a/../../b''])
   \<and> \<not> spec_unsafe_path ''..b''
   \<and> extract_item (demo_ctx fresh_os) (dir_item ''..b'') False False [] = (Inl UnsafePath, [])"
  by (simp add: restore_eval demo_eval spec_unsafe_path_def)

subsection \<open>The removal of an existing entry\<close>

lemma remove_existing_result:
  "remove_existing os p tr =
     (Inr (), tr @ (case os tr (Lstat p) of
                      Inl e \<Rightarrow> [Lstat p]
                    | Inr m \<Rightarrow> if S_ISDIR m then [Lstat p, Rmdir p] else [Lstat p, Unlink p]))"
  by (simp add: remove_existing_def ignore_OSError_def bindE_def sys_def sys_unit_def retE_def
      split: sum.splits)

text \<open>
  C9 (amended). For a path that passes the check, \<open>extract_item\<close> calls \<open>lstat\<close>,
  then \<open>rmdir\<close> if \<open>lstat\<close> reported a directory and \<open>unlink\<close> if it reported
  anything else, and goes on to create the entry whatever these calls replied: every
  \<open>OSError\<close> of \<open>lstat\<close>, \<open>rmdir\<close> or \<open>unlink\<close> is ignored, none reaches the
  caller.
\<close>

theorem extract_item_removal_ignores_errors:
  assumes "\<not> startswith (i_path it) ''/''" and "\<not> startswith (i_path it) ''..''"
  shows "extract_item R it ra False tr =
           materialize R it ra (join (cwd R) (i_path it))
             (tr @ (case the_os R tr (Lstat (join (cwd R) (i_path it))) of
                      Inl e \<Rightarrow> [Lstat (join (cwd R) (i_path it))]
                    | Inr m \<Rightarrow>
                        if S_ISDIR m
                        then [Lstat (join (cwd R) (i_path it)), Rmdir (join (cwd R) (i_path it))]
                        else [Lstat (join (cwd R) (i_path it)), Unlink (join (cwd R) (i_path it))]))"
  using assms by (simp add: extract_item_def bindE_def remove_existing_result)

theorem extract_item_removal_ignores_errors_witness:
  "extract_item (demo_ctx busy_os) (dir_item ''d'') False False []
     = materialize (demo_ctx busy_os) (dir_item ''d'') False ''/dest/d''
         [Lstat ''/dest/d'', Rmdir ''/dest/d'']"
  using extract_item_removal_ignores_errors[of "dir_item ''d''" "demo_ctx busy_os" False "[]"]
  by (simp add: startswith_def join_def endswith_def dir_item_def demo_ctx_def busy_os_def S_ISDIR_def
      S_IFMT_def)

text \<open>
  C9 as stated fails: \<open>rmdir\<close> of a directory that is not empty raises \<open>ENOTEMPTY\<close>,
  which is not an error of a missing entry, and \<open>extract_item\<close> returns normally.
\<close>

theorem extract_item_swallows_ENOTEMPTY:
  "busy_os [Lstat ''/dest/d''] (Rmdir ''/dest/d'') = Inl ENOTEMPTY
   \<and> extract_item (demo_ctx busy_os) (dir_item ''d'') False False []
       = (Inr (), [Lstat ''/dest/d'', Rmdir ''/dest/d'', Stat ''/dest/d''])"
  by (simp add: restore_eval demo_eval)

subsection \<open>Hardlink items\<close>

lemma appends_retE: "appends P (retE x)"
  by (simp add: appends_def retE_def)

lemma appends_throwE: "appends P (throwE e)"
  by (simp add: appends_def throwE_def)

lemma appends_sys: "P c \<Longrightarrow> appends P (sys os c)"
  by (auto simp: appends_def sys_def split: sum.splits)

lemma appends_exists: "P (Stat p) \<Longrightarrow> appends P (exists os p)"
  by (auto simp: appends_def exists_def split: sum.splits)

lemma appends_bindE:
  assumes "appends P m" and "\<And>x. appends P (f x)"
  shows "appends P (bindE m f)"
  unfolding appends_def
proof
  fix tr
  obtain cs where cs: "snd (m tr) = tr @ cs" "list_all P cs"
    using assms(1) unfolding appends_def by blast
  show "\<exists>ds. snd (bindE m f tr) = tr @ ds \<and> list_all P ds"
  proof (cases "m tr")
    case (Pair r tr')
    show ?thesis
    proof (cases r)
      case (Inl e)
      with Pair cs show ?thesis by (auto simp: bindE_def)
    next
      case (Inr x)
      obtain ds where ds: "snd (f x tr') = tr' @ ds" "list_all P ds"
        using assms(2)[of x] unfolding appends_def by blast
      with Pair Inr cs show ?thesis by (auto simp: bindE_def)
    qed
  qed
qed

lemma appends_sys_unit: "P c \<Longrightarrow> appends P (sys_unit os c)"
  unfolding sys_unit_def by (intro appends_bindE appends_sys appends_retE)

lemma appends_ignore: "appends P m \<Longrightarrow> appends P (ignore_OSError m)"
  unfolding appends_def ignore_OSError_def
  by (auto split: prod.splits sum.splits error.splits) (metis snd_conv)+

lemma appends_if: "appends P a \<Longrightarrow> appends P b \<Longrightarrow> appends P (if c then a else b)"
  by simp

lemma appends_forE:
  assumes "\<And>x. appends P (body x)"
  shows "appends P (forE xs body)"
  unfolding appends_def
proof (induction xs)
  case Nil
  show ?case by simp
next
  case (Cons x xs)
  show ?case
  proof
    fix tr
    obtain cs where cs: "snd (body x tr) = tr @ cs" "list_all P cs"
      using assms[of x] unfolding appends_def by blast
    show "\<exists>ds. snd (forE (x # xs) body tr) = tr @ ds \<and> list_all P ds"
    proof (cases "body x tr")
      case (Pair r tr')
      show ?thesis
      proof (cases r)
        case (Inl e)
        with Pair cs show ?thesis by auto
      next
        case (Inr u)
        obtain ds where "snd (forE xs body tr') = tr' @ ds" "list_all P ds"
          using Cons.IH by blast
        with Pair Inr cs show ?thesis by auto
      qed
    qed
  qed
qed

lemma appends_remove_existing:
  "P (Lstat p) \<Longrightarrow> P (Rmdir p) \<Longrightarrow> P (Unlink p) \<Longrightarrow> appends P (remove_existing os p)"
  unfolding remove_existing_def
  by (intro appends_ignore appends_bindE appends_sys appends_if appends_sys_unit)

lemma appends_ensure_dir:
  "P (Stat p) \<Longrightarrow> P (Makedirs p) \<Longrightarrow> appends P (ensure_dir os p)"
  unfolding ensure_dir_def
  by (intro appends_bindE appends_exists appends_if appends_sys_unit appends_retE)

lemma appends_unlink_if_exists:
  "P (Stat p) \<Longrightarrow> P (Unlink p) \<Longrightarrow> appends P (unlink_if_exists os p)"
  unfolding unlink_if_exists_def
  by (intro appends_bindE appends_exists appends_if appends_sys_unit appends_retE)

lemma hardlink_materialize:
  "S_ISREG (i_mode it) \<Longrightarrow> i_source it = Some src \<Longrightarrow>
   materialize R it ra p =
     bindE (ensure_dir (the_os R) (dirname p))
       (\<lambda>u. bindE (unlink_if_exists (the_os R) p) (\<lambda>u. sys_unit (the_os R) (Link (join (cwd R) src) p)))"
  by (simp add: materialize_def Let_def S_ISREG_def S_ISDIR_def)

lemma hardlink_extract_appends:
  assumes "S_ISREG (i_mode it)" "i_source it = Some src"
  shows "appends (\<lambda>c. \<not> is_attr_call c) (extract_item R it ra False)"
  unfolding extract_item_def hardlink_materialize[OF assms]
  by (simp, intro conjI impI appends_throwE appends_bindE appends_remove_existing
        appends_ensure_dir appends_unlink_if_exists appends_sys_unit)
     (simp_all add: is_attr_call_def)

lemma last_sys_unit:
  "fst (sys_unit os c tr) = Inr () \<Longrightarrow> last (snd (sys_unit os c tr)) = c"
  by (simp add: sys_unit_def sys_def bindE_def retE_def split: sum.splits)

lemma bindE_Inr:
  "fst (bindE m f s) = Inr y \<Longrightarrow> \<exists>x s'. m s = (Inr x, s') \<and> bindE m f s = f x s'"
  by (auto simp: bindE_def split: prod.splits sum.splits)

lemma hardlink_extract_last:
  assumes "S_ISREG (i_mode it)" "i_source it = Some src"
    and ok: "fst (extract_item R it ra False tr) = Inr ()"
  shows "last (snd (extract_item R it ra False tr)) = Link (join (cwd R) src) (join (cwd R) (i_path it))"
proof -
  let ?p = "join (cwd R) (i_path it)"
  let ?link = "sys_unit (the_os R) (Link (join (cwd R) src) ?p)"
  have safe: "\<not> (startswith (i_path it) ''/'' \<or> startswith (i_path it) ''..'')"
    using ok by (auto simp: extract_item_def throwE_def)
  then have eq: "extract_item R it ra False tr =
      bindE (remove_existing (the_os R) ?p)
        (\<lambda>u. bindE (ensure_dir (the_os R) (dirname ?p))
          (\<lambda>u. bindE (unlink_if_exists (the_os R) ?p) (\<lambda>u. ?link))) tr"
    by (simp add: extract_item_def hardlink_materialize[OF assms(1,2)])
  from ok[unfolded eq] obtain u1 s1 where
    1: "extract_item R it ra False tr =
          bindE (ensure_dir (the_os R) (dirname ?p)) (\<lambda>u. bindE (unlink_if_exists (the_os R) ?p) (\<lambda>u. ?link)) s1"
    using bindE_Inr eq by metis
  from ok[unfolded 1] obtain u2 s2 where
    2: "extract_item R it ra False tr = bindE (unlink_if_exists (the_os R) ?p) (\<lambda>u. ?link) s2"
    using bindE_Inr 1 by metis
  from ok[unfolded 2] obtain u3 s3 where
    3: "extract_item R it ra False tr = ?link s3"
    using bindE_Inr 2 by metis
  show ?thesis using ok last_sys_unit unfolding 3 by blast
qed

text \<open>
  \<open>restore_attrs\<close> always makes at least one call, and all its calls set attributes;
  so a history without such a call is one in which \<open>restore_attrs\<close> did not run.
\<close>

lemma strictly_sys_unit: "P c \<Longrightarrow> strictly P (sys_unit os c)"
  by (auto simp: strictly_def sys_unit_def sys_def bindE_def retE_def split: sum.splits)

lemma strictly_bindE1:
  assumes "strictly P m" and "\<And>x. appends P (f x)"
  shows "strictly P (bindE m f)"
  unfolding strictly_def
proof
  fix tr
  obtain c cs where cs: "snd (m tr) = tr @ c # cs" "P c" "list_all P cs"
    using assms(1) unfolding strictly_def by blast
  show "\<exists>c ds. snd (bindE m f tr) = tr @ c # ds \<and> P c \<and> list_all P ds"
  proof (cases "m tr")
    case (Pair r tr')
    show ?thesis
    proof (cases r)
      case (Inl e)
      with Pair cs show ?thesis by (auto simp: bindE_def)
    next
      case (Inr x)
      obtain ds where ds: "snd (f x tr') = tr' @ ds" "list_all P ds"
        using assms(2)[of x] unfolding appends_def by blast
      with Pair Inr cs have "snd (bindE m f tr) = tr @ c # (cs @ ds) \<and> P c \<and> list_all P (cs @ ds)"
        by (auto simp: bindE_def)
      then show ?thesis by blast
    qed
  qed
qed

lemma strictly_ignore: "strictly P m \<Longrightarrow> strictly P (ignore_OSError m)"
  unfolding strictly_def ignore_OSError_def
  by (auto split: prod.splits sum.splits error.splits) (metis snd_conv)+

lemma strictly_imp_appends:
  assumes "strictly P m"
  shows "appends P m"
  unfolding appends_def
proof
  fix tr
  obtain c cs where "snd (m tr) = tr @ c # cs" "P c" "list_all P cs"
    using assms unfolding strictly_def by blast
  then have "snd (m tr) = tr @ (c # cs) \<and> list_all P (c # cs)" by simp
  then show "\<exists>cs. snd (m tr) = tr @ cs \<and> list_all P cs" by blast
qed

lemma strictly_set_one_xattr:
  "strictly is_attr_call (set_one_xattr os p fd kv)"
proof -
  have "strictly is_attr_call (sys_unit os (if fd_true fd then SetxattrFd (the fd) (fst kv) (snd kv)
                        else SetxattrPath p (fst kv) (snd kv)))"
    by (rule strictly_sys_unit) (simp add: is_attr_call_def)
  then show ?thesis
    unfolding strictly_def set_one_xattr_def
    by (auto split: prod.splits sum.splits error.splits) (metis snd_conv)+
qed

lemma strictly_forE:
  assumes "\<And>x. strictly P (body x)"
  shows "strictly P (forE (x # xs) body)"
  unfolding strictly_def
proof
  fix tr
  obtain c cs where cs: "snd (body x tr) = tr @ c # cs" "P c" "list_all P cs"
    using assms[of x] unfolding strictly_def by blast
  have app: "appends P (forE xs body)"
    by (rule appends_forE) (rule strictly_imp_appends[OF assms])
  show "\<exists>c ds. snd (forE (x # xs) body tr) = tr @ c # ds \<and> P c \<and> list_all P ds"
  proof (cases "body x tr")
    case (Pair r tr')
    show ?thesis
    proof (cases r)
      case (Inl e)
      with Pair cs show ?thesis by auto
    next
      case (Inr u)
      obtain ds where "snd (forE xs body tr') = tr' @ ds" "list_all P ds"
        using app unfolding appends_def by blast
      with Pair Inr cs have "snd (forE (x # xs) body tr) = tr @ c # (cs @ ds) \<and> P c \<and> list_all P (cs @ ds)"
        by auto
      then show ?thesis by blast
    qed
  qed
qed

lemma bindE_retE: "bindE (retE x) f = f x"
  by (rule ext) (simp add: bindE_def retE_def)

lemma attrs_tail_appends:
  "appends is_attr_call
     (bindE (if fd_true fd then sys_unit os (Fchmod (the fd) m)
              else if \<not> sl then sys_unit os (Chmod p m)
              else if hl then sys_unit os (Lchmod p m)
              else retE ())
       (\<lambda>u.
          if fd_true fd \<and> ufd then sys_unit os (UtimeFdNs (the fd) t)
          else if ufd then sys_unit os (UtimePathNs p t)
          else if \<not> sl then sys_unit os (UtimeSec p t)
          else retE ()))"
  by (intro appends_bindE appends_if appends_sys_unit appends_retE) (simp_all add: is_attr_call_def)

lemma attrs_chown_strictly:
  "strictly is_attr_call
     (bindE (ignore_OSError
                (if fd_true fd then sys_unit os (Fchown (the fd) uid gid)
                 else sys_unit os (Lchown p uid gid)))
       (\<lambda>u.
       bindE (if fd_true fd then sys_unit os (Fchmod (the fd) m)
              else if \<not> sl then sys_unit os (Chmod p m)
              else if hl then sys_unit os (Lchmod p m)
              else retE ())
       (\<lambda>u.
          if fd_true fd \<and> ufd then sys_unit os (UtimeFdNs (the fd) t)
          else if ufd then sys_unit os (UtimePathNs p t)
          else if \<not> sl then sys_unit os (UtimeSec p t)
          else retE ())))"
  by (intro strictly_bindE1 strictly_ignore attrs_tail_appends)
     (auto intro!: strictly_sys_unit simp: is_attr_call_def)

lemma restore_attrs_strictly: "strictly is_attr_call (restore_attrs R p it sl fd)"
proof (cases "\<exists>x xs. i_xattrs it = Some (x # xs)")
  case True
  then obtain x xs where x: "i_xattrs it = Some (x # xs)" by blast
  have eq: "(case i_xattrs it of
              None \<Rightarrow> retE ()
            | Some xs \<Rightarrow> if xs \<noteq> [] then forE xs (set_one_xattr (the_os R) p fd) else retE ())
        = forE (x # xs) (set_one_xattr (the_os R) p fd)"
    using x by simp
  show ?thesis
    unfolding restore_attrs_def Let_def eq
    by (intro strictly_bindE1 strictly_forE strictly_set_one_xattr
          strictly_imp_appends[OF attrs_chown_strictly])
next
  case False
  then have "(case i_xattrs it of
              None \<Rightarrow> retE ()
            | Some xs \<Rightarrow> if xs \<noteq> [] then forE xs (set_one_xattr (the_os R) p fd) else retE ())
        = retE ()"
    by (cases "i_xattrs it") (auto simp: neq_Nil_conv)
  then show ?thesis
    unfolding restore_attrs_def Let_def
    by (simp only: bindE_retE attrs_chown_strictly)
qed

text \<open>
  C10. For a hardlink item (regular-file mode, \<open>source\<close> present) \<open>extract_item\<close>
  does the same with \<open>restore_attrs = True\<close> as with \<open>False\<close>; the calls it adds to
  the history are none of those \<open>restore_attrs\<close> makes, so no mode, owner, time or
  extended attribute is set; and when it returns normally its last call is
  \<open>link(cwd/source, cwd/path)\<close>.
\<close>

theorem extract_hardlink_no_restore_attrs:
  assumes "S_ISREG (i_mode it)" and "i_source it = Some src"
  shows "extract_item R it True False tr = extract_item R it False False tr
         \<and> take (length tr) (snd (extract_item R it ra False tr)) = tr
         \<and> list_all (\<lambda>c. \<not> is_attr_call c) (drop (length tr) (snd (extract_item R it ra False tr)))
         \<and> (fst (extract_item R it ra False tr) = Inr () \<longrightarrow>
              last (snd (extract_item R it ra False tr))
                = Link (join (cwd R) src) (join (cwd R) (i_path it)))"
proof -
  have same: "extract_item R it True False tr = extract_item R it False False tr"
    by (simp add: extract_item_def hardlink_materialize[OF assms])
  obtain cs where cs: "snd (extract_item R it ra False tr) = tr @ cs"
      "list_all (\<lambda>c. \<not> is_attr_call c) cs"
    using hardlink_extract_appends[OF assms, of R ra] unfolding appends_def by blast
  have lst: "fst (extract_item R it ra False tr) = Inr () \<longrightarrow>
              last (snd (extract_item R it ra False tr))
                = Link (join (cwd R) src) (join (cwd R) (i_path it))"
    using hardlink_extract_last[OF assms] by blast
  have pre: "take (length tr) (snd (extract_item R it ra False tr)) = tr"
    and post: "list_all (\<lambda>c. \<not> is_attr_call c) (drop (length tr) (snd (extract_item R it ra False tr)))"
    using cs by simp_all
  show ?thesis
    using same pre post lst by blast
qed

theorem extract_hardlink_no_restore_attrs_witness:
  "S_ISREG (i_mode link_item) \<and> i_source link_item = Some ''a''
   \<and> extract_item (demo_ctx fresh_os) link_item True False []
       = (Inr (), [Lstat ''/dest/b'', Stat ''/dest'', Makedirs ''/dest'', Stat ''/dest/b'',
                   Link ''/dest/a'' ''/dest/b''])
   \<and> last (snd (extract_item (demo_ctx fresh_os) link_item True False []))
       = Link (join (cwd (demo_ctx fresh_os)) ''a'') (join (cwd (demo_ctx fresh_os)) (i_path link_item))"
  using extract_hardlink_no_restore_attrs[of link_item "''a''" "demo_ctx fresh_os" "[]" True]
  by (simp add: restore_eval demo_eval)

section \<open>The chunk buffer\<close>

lemma append_chunk_apply:
  "append_chunk wc c (cb, s) =
     (case wc c s of
        (Inl e, s') \<Rightarrow> (Inl e, (cb, s'))
      | (Inr i, s') \<Rightarrow> (Inr (), (cb\<lparr>cb_chunks := cb_chunks cb @ [i]\<rparr>, s')))"
  by (simp add: append_chunk_def)

lemma forE_append_chunk:
  "forE cs (append_chunk wc) (cb, s) =
     (case write_seq wc cs s of
        ((None, ids), s') \<Rightarrow> (Inr (), (cb\<lparr>cb_chunks := cb_chunks cb @ ids\<rparr>, s'))
      | ((Some e, ids), s') \<Rightarrow> (Inl e, (cb\<lparr>cb_chunks := cb_chunks cb @ ids\<rparr>, s')))"
proof (induction cs arbitrary: cb s)
  case Nil
  show ?case by simp
next
  case (Cons c cs)
  show ?case
  proof (cases "wc c s")
    case (Pair r s1)
    show ?thesis
    proof (cases r)
      case (Inl e)
      with Pair show ?thesis by (simp add: append_chunk_apply)
    next
      case (Inr i)
      with Pair show ?thesis
        by (simp add: append_chunk_apply Cons.IH split: prod.splits option.splits)
    qed
  qed
qed

text \<open>
  C5. \<open>flush(final)\<close> does nothing when the buffer is empty. Otherwise it splits the
  buffered bytes with the chunker at \<^verbatim>\<open>(0xfff, 0xffff, 1024, key.chunk_seed)\<close>. If
  \<open>final\<close> is false and there is more than one chunk, all chunks but the last go to
  \<open>write_chunk\<close>, the ids returned are appended to \<open>self.chunks\<close> in order, and the
  last chunk is the buffer's new content. If \<open>final\<close> is true or there is exactly one
  chunk, all chunks are written and the buffer is left empty. (When \<open>write_chunk\<close>
  raises, the ids returned before it are kept and the buffer is empty. The one case left,
  \<open>final\<close> false and a chunker that yields nothing for bytes that are there, is the
  \<open>IndexError\<close> of \<^verbatim>\<open>chunks[-1]\<close>.)
\<close>

theorem flush_writes_all_but_an_unfinished_tail:
  "flush chunkify k wc final (cb, s) =
     (if cb_buffer cb = [] then (Inr (), (cb, s))
      else
        let chunks = chunkify (cb_buffer cb) 0xfff 0xffff 1024 (chunk_seed k) in
        if \<not> final \<and> length chunks > 1 then
          (case write_seq wc (butlast chunks) s of
             ((None, ids), s') \<Rightarrow>
               (Inr (), (\<lparr>cb_buffer = last chunks, cb_chunks = cb_chunks cb @ ids\<rparr>, s'))
           | ((Some e, ids), s') \<Rightarrow>
               (Inl e, (\<lparr>cb_buffer = [], cb_chunks = cb_chunks cb @ ids\<rparr>, s')))
        else if final \<or> length chunks = 1 then
          (case write_seq wc chunks s of
             ((None, ids), s') \<Rightarrow>
               (Inr (), (\<lparr>cb_buffer = [], cb_chunks = cb_chunks cb @ ids\<rparr>, s'))
           | ((Some e, ids), s') \<Rightarrow>
               (Inl e, (\<lparr>cb_buffer = [], cb_chunks = cb_chunks cb @ ids\<rparr>, s')))
        else (Inl IndexError, (\<lparr>cb_buffer = [], cb_chunks = cb_chunks cb\<rparr>, s)))"
proof (cases "cb_buffer cb = []")
  case True
  then show ?thesis by (simp add: flush_def)
next
  case False
  define chunks where "chunks = chunkify (cb_buffer cb) 0xfff 0xffff 1024 (chunk_seed k)"
  have slice: "py_slice_to chunks (Some (- 1)) = butlast chunks"
    by (simp add: py_slice_to_def butlast_conv_take nat_diff_distrib')
  consider (keep) "\<not> final" "length chunks > 1"
    | (all) "final \<or> length chunks = 1"
    | (none) "\<not> final" "chunks = []"
    by (cases chunks) auto
  then show ?thesis
  proof cases
    case keep
    then have ne: "chunks \<noteq> []" by auto
    show ?thesis
      using False keep ne
      by (simp add: flush_def Let_def WINDOW_SIZE_def CHUNK_MASK_def CHUNK_MIN_def
            chunks_def[symmetric] slice bindE_def forE_append_chunk
          split: prod.splits option.splits)
  next
    case all
    then show ?thesis
      using False
      by (auto simp: flush_def Let_def WINDOW_SIZE_def CHUNK_MASK_def CHUNK_MIN_def
            chunks_def[symmetric] py_slice_to_def bindE_def retE_def forE_append_chunk
          split: prod.splits option.splits)
  next
    case none
    then show ?thesis
      using False
      by (simp add: flush_def Let_def WINDOW_SIZE_def CHUNK_MASK_def CHUNK_MIN_def
            chunks_def[symmetric] py_slice_to_def bindE_def throwE_def)
  qed
qed

section \<open>The checker's robust iterator\<close>

lemma grouper_valid_run:
  "list_all present pre \<Longrightarrow> \<not> present m \<Longrightarrow>
   grouper present 0 (pre @ m # post) 0 = (pre, Some (m, 1), post, 1)"
  by (induction pre) (auto simp: missing_chunk_detector_def Let_def)

lemma robust_groups_damaged:
  "state mod 2 = 1 \<Longrightarrow> robust_groups k u present repo (m, state) rest prev buf out = (out, Damage)"
  by (simp add: robust_groups.simps Let_def)

lemma robust_groups_valid_then_gap:
  assumes "list_all present pre" "\<not> present m"
  shows "robust_groups k u present repo (x, 0) (pre @ m # post) None [] [] =
           (case feed_chunks k u repo 1 0 (x # pre) [] [] of
              (Some e, out, b) \<Rightarrow> (out, Raised e)
            | (None, out, b) \<Rightarrow> (out, Damage))"
  by (simp add: robust_groups.simps[of _ _ _ _ x 0] Let_def grouper_valid_run[OF assms]
        robust_groups_damaged
      del: feed_chunks.simps split: prod.splits option.splits)

text \<open>
  Once the iterator meets an id that is missing from the index it ends: what it yields
  does not depend on the ids after the first missing one.
\<close>

lemma robust_iterator_ends_at_first_gap:
  assumes "list_all (\<lambda>i. i \<in> dom (ck_chunks ck)) pre" "m \<notin> dom (ck_chunks ck)"
  shows "robust_iterator k u (pre @ m # post) ck = robust_iterator k u (pre @ [m]) ck"
proof (cases pre)
  case Nil
  then show ?thesis
    using assms(2)
    by (simp add: robust_iterator_def Let_def missing_chunk_detector_def robust_groups_damaged)
next
  case (Cons x pre')
  then have x: "x \<in> dom (ck_chunks ck)" and pre': "list_all (\<lambda>i. i \<in> dom (ck_chunks ck)) pre'"
    using assms(1) by simp_all
  have d: "missing_chunk_detector (\<lambda>i. i \<in> dom (ck_chunks ck)) x 0 = 0"
    using x by (simp add: missing_chunk_detector_def)
  show ?thesis
    unfolding Cons robust_iterator_def Let_def
    using robust_groups_valid_then_gap[OF pre' assms(2), of k u "ck_repository ck" x post]
          robust_groups_valid_then_gap[OF pre' assms(2), of k u "ck_repository ck" x "[]"]
    by (simp add: d del: feed_chunks.simps)
qed

text \<open>
  C2, at a failing input. The item stream is intact except for one missing chunk
  \<open>c1\<close>; the surviving chunks \<open>c0\<close> and \<open>c2\<close> hold the items \<open>a\<close>, \<open>b\<close>, \<open>e\<close>,
  \<open>f\<close>. The iterator yields \<open>a\<close> and \<open>b\<close>, reports the damage and returns (line 555):
  \<open>e\<close> and \<open>f\<close> are never yielded, and the resync of lines 559-560 never runs after a
  gap.
\<close>

theorem robust_iterator_loses_items_after_gap:
  "robust_iterator toy_key toy_unpack [''c0'', ''c1'', ''c2''] gap_checker
     = (([Dict (path_item ''a''), Dict (path_item ''b'')], Damage),
        gap_checker\<lparr>ck_error_found := True, ck_messages := [MetadataDamage]\<rparr>)"
proof -
  let ?present = "\<lambda>i. i \<in> dom (ck_chunks gap_checker)"
  have u: "toy_unpack ''a;b;'' = ([Dict (path_item ''a''), Dict (path_item ''b'')], [])"
    by (simp add: toy_unpack_def)
  have r: "msgpack_resync toy_unpack ''a;b;'' = Inr (Some ''a;b;'')"
    by (simp add: u)
  have f: "feed_chunks toy_key toy_unpack (ck_repository gap_checker) 1 0 [''c0''] [] []
             = (None, [Dict (path_item ''a''), Dict (path_item ''b'')], [])"
    using r u by (simp add: gap_checker_def toy_key_def)
  have d: "missing_chunk_detector ?present ''c0'' 0 = 0"
    by (simp add: gap_checker_def missing_chunk_detector_def)
  have gap: "list_all ?present []" "\<not> ?present ''c1''"
    by (simp_all add: gap_checker_def)
  have g: "robust_groups toy_key toy_unpack ?present (ck_repository gap_checker) (''c0'', 0)
             [''c1'', ''c2''] None [] []
           = ([Dict (path_item ''a''), Dict (path_item ''b'')], Damage)"
    using robust_groups_valid_then_gap[OF gap, where k = toy_key and u = toy_unpack
        and repo = "ck_repository gap_checker" and x = "''c0''" and post = "[''c2'']"] f
    by (simp del: feed_chunks.simps)
  have m: "ck_messages gap_checker = []" "ck_progress gap_checker = False"
    by (simp_all add: gap_checker_def)
  show ?thesis
    by (simp add: robust_iterator_def Let_def d g report_progress_def m)
qed

section \<open>The checker's \<open>verify_file_chunks\<close>\<close>

lemma add_reference_present:
  "ck_chunks ck i = Some (n, s0, c0) \<Longrightarrow>
   add_reference i sz csz cdata ck = (Inr (), ck\<lparr>ck_chunks := (ck_chunks ck)(i \<mapsto> (n + 1, sz, csz))\<rparr>)"
  by (simp add: add_reference_def)

lemma add_reference_data:
  "add_reference i sz csz (Some cd) ck =
     (Inr (), ck\<lparr>ck_chunks := (ck_chunks ck)(i \<mapsto> ((case ck_chunks ck i of None \<Rightarrow> 1 | Some (n, s0, c0) \<Rightarrow> n + 1), sz, csz)),
                 ck_repository := (if ck_repair ck \<and> i \<notin> dom (ck_chunks ck)
                                   then (ck_repository ck)(i \<mapsto> cd) else ck_repository ck)\<rparr>)"
  by (auto simp: add_reference_def Let_def split: option.splits)

lemma verify_loop_absent:
  "cid \<notin> dom (ck_chunks ck) \<Longrightarrow>
   verify_loop k p ((cid, sz, csz) # rest) off acc ck =
     verify_loop k p rest (off + sz) (acc @ [zero_ref k sz])
       (ck\<lparr>ck_error_found := True,
           ck_messages := ck_messages ck @ [MissingFileChunk p off (off + sz)],
           ck_chunks := (ck_chunks ck)(fst (zero_ref k sz) \<mapsto>
              ((case ck_chunks ck (fst (zero_ref k sz)) of None \<Rightarrow> 1 | Some (n, s0, c0) \<Rightarrow> n + 1),
               sz, snd (snd (zero_ref k sz)))),
           ck_repository :=
             (if ck_repair ck \<and> fst (zero_ref k sz) \<notin> dom (ck_chunks ck)
              then (ck_repository ck)(fst (zero_ref k sz) \<mapsto> encrypt k (zeros sz))
              else ck_repository ck)\<rparr>)"
  by (simp add: add_reference_data report_progress_def Let_def zero_ref_def)

lemma verify_loop_present:
  "ck_chunks ck cid = Some (n, s0, c0) \<Longrightarrow>
   verify_loop k p ((cid, sz, csz) # rest) off acc ck =
     verify_loop k p rest (off + sz) (acc @ [(cid, sz, csz)])
       (ck\<lparr>ck_chunks := (ck_chunks ck)(cid \<mapsto> (n + 1, sz, csz))\<rparr>)"
  by (simp add: add_reference_present dom_def)

lemma verify_loop_total:
  "\<exists>out ck'. verify_loop k p refs off acc ck = (Inr (acc @ out), ck')
      \<and> list_all2 (\<lambda>r r'. r' = r \<or> r' = zero_ref k (fst (snd r))) refs out"
proof (induction refs arbitrary: off acc ck)
  case Nil
  show ?case by simp
next
  case (Cons r refs)
  obtain cid sz csz where r: "r = (cid, sz, csz)" by (cases r) auto
  show ?case
  proof (cases "ck_chunks ck cid")
    case None
    then have a: "cid \<notin> dom (ck_chunks ck)" by (simp add: dom_def)
    define ck1 where "ck1 = ck\<lparr>ck_error_found := True,
           ck_messages := ck_messages ck @ [MissingFileChunk p off (off + sz)],
           ck_chunks := (ck_chunks ck)(fst (zero_ref k sz) \<mapsto>
              ((case ck_chunks ck (fst (zero_ref k sz)) of None \<Rightarrow> 1 | Some (n, s0, c0) \<Rightarrow> n + 1),
               sz, snd (snd (zero_ref k sz)))),
           ck_repository :=
             (if ck_repair ck \<and> fst (zero_ref k sz) \<notin> dom (ck_chunks ck)
              then (ck_repository ck)(fst (zero_ref k sz) \<mapsto> encrypt k (zeros sz))
              else ck_repository ck)\<rparr>"
    obtain out ck' where
      o: "verify_loop k p refs (off + sz) (acc @ [zero_ref k sz]) ck1 = (Inr ((acc @ [zero_ref k sz]) @ out), ck')"
         "list_all2 (\<lambda>r r'. r' = r \<or> r' = zero_ref k (fst (snd r))) refs out"
      using Cons.IH by blast
    have "verify_loop k p (r # refs) off acc ck = (Inr (acc @ (zero_ref k sz # out)), ck')"
      unfolding r verify_loop_absent[OF a] using o(1) by (simp add: ck1_def)
    moreover have "list_all2 (\<lambda>r r'. r' = r \<or> r' = zero_ref k (fst (snd r))) (r # refs) (zero_ref k sz # out)"
      using o(2) by (simp add: r)
    ultimately show ?thesis by blast
  next
    case (Some t)
    obtain n s0 c0 where t: "t = (n, s0, c0)" by (cases t) auto
    define ck1 where "ck1 = ck\<lparr>ck_chunks := (ck_chunks ck)(cid \<mapsto> (n + 1, sz, csz))\<rparr>"
    obtain out ck' where
      o: "verify_loop k p refs (off + sz) (acc @ [(cid, sz, csz)]) ck1 = (Inr ((acc @ [(cid, sz, csz)]) @ out), ck')"
         "list_all2 (\<lambda>r r'. r' = r \<or> r' = zero_ref k (fst (snd r))) refs out"
      using Cons.IH by blast
    have "verify_loop k p (r # refs) off acc ck = (Inr (acc @ ((cid, sz, csz) # out)), ck')"
      unfolding r verify_loop_present[OF Some[unfolded t]] using o(1) by (simp add: ck1_def)
    moreover have "list_all2 (\<lambda>r r'. r' = r \<or> r' = zero_ref k (fst (snd r))) (r # refs) ((cid, sz, csz) # out)"
      using o(2) by (simp add: r)
    ultimately show ?thesis by blast
  qed
qed

lemma repaired_sizes:
  "list_all2 (\<lambda>r r'. r' = r \<or> r' = zero_ref k (fst (snd r))) refs out \<Longrightarrow>
   map (\<lambda>r. fst (snd r)) out = map (\<lambda>r. fst (snd r)) refs"
  by (induction refs out rule: list_all2_induct) (auto simp: zero_ref_def)

text \<open>
  C7. The loop of \<open>verify_file_chunks\<close>, at any reference \<open>(cid, sz, csz)\<close> it comes
  to and in the index as it is then. If \<open>cid\<close> is absent from the index, the reference
  becomes \<open>zero_ref k sz\<close>, that is \<^verbatim>\<open>(id_hash(zeros), sz, len(encrypt(zeros)))\<close>; the zero
  chunk's id gets a count of 1 if the index did not hold it and one more if it did, and
  the zero chunk is put into the repository exactly in repair mode when the index did not
  hold its id; the damage is reported. If \<open>cid\<close> is present with count \<open>n\<close>, the
  reference is kept and the count becomes \<open>n + 1\<close>. For a whole item the loop never
  raises, and the new list answers the old one position by position: each reference is
  the old one or the zero reference of the old one's size, so order and sizes are kept.
\<close>

theorem verify_file_chunks_repairs:
  "(cid \<notin> dom (ck_chunks ck) \<longrightarrow>
      verify_loop k p ((cid, sz, csz) # rest) off acc ck =
        verify_loop k p rest (off + sz) (acc @ [zero_ref k sz])
          (ck\<lparr>ck_error_found := True,
              ck_messages := ck_messages ck @ [MissingFileChunk p off (off + sz)],
              ck_chunks := (ck_chunks ck)(fst (zero_ref k sz) \<mapsto>
                 ((case ck_chunks ck (fst (zero_ref k sz)) of None \<Rightarrow> 1 | Some (n, s0, c0) \<Rightarrow> n + 1),
                  sz, snd (snd (zero_ref k sz)))),
              ck_repository :=
                (if ck_repair ck \<and> fst (zero_ref k sz) \<notin> dom (ck_chunks ck)
                 then (ck_repository ck)(fst (zero_ref k sz) \<mapsto> encrypt k (zeros sz))
                 else ck_repository ck)\<rparr>))
   \<and> (ck_chunks ck cid = Some (n, s0, c0) \<longrightarrow>
      verify_loop k p ((cid, sz, csz) # rest) off acc ck =
        verify_loop k p rest (off + sz) (acc @ [(cid, sz, csz)])
          (ck\<lparr>ck_chunks := (ck_chunks ck)(cid \<mapsto> (n + 1, sz, csz))\<rparr>))
   \<and> (i_chunks it = Some refs \<longrightarrow>
        (\<exists>out ck'. verify_file_chunks k it ck = (Inr (it\<lparr>i_chunks := Some out\<rparr>), ck')
           \<and> list_all2 (\<lambda>r r'. r' = r \<or> r' = zero_ref k (fst (snd r))) refs out
           \<and> map (\<lambda>r. fst (snd r)) out = map (\<lambda>r. fst (snd r)) refs))"
proof (intro conjI impI)
  assume "cid \<notin> dom (ck_chunks ck)"
  then show "verify_loop k p ((cid, sz, csz) # rest) off acc ck =
        verify_loop k p rest (off + sz) (acc @ [zero_ref k sz])
          (ck\<lparr>ck_error_found := True,
              ck_messages := ck_messages ck @ [MissingFileChunk p off (off + sz)],
              ck_chunks := (ck_chunks ck)(fst (zero_ref k sz) \<mapsto>
                 ((case ck_chunks ck (fst (zero_ref k sz)) of None \<Rightarrow> 1 | Some (n, s0, c0) \<Rightarrow> n + 1),
                  sz, snd (snd (zero_ref k sz)))),
              ck_repository :=
                (if ck_repair ck \<and> fst (zero_ref k sz) \<notin> dom (ck_chunks ck)
                 then (ck_repository ck)(fst (zero_ref k sz) \<mapsto> encrypt k (zeros sz))
                 else ck_repository ck)\<rparr>)"
    by (rule verify_loop_absent)
next
  assume "ck_chunks ck cid = Some (n, s0, c0)"
  then show "verify_loop k p ((cid, sz, csz) # rest) off acc ck =
        verify_loop k p rest (off + sz) (acc @ [(cid, sz, csz)])
          (ck\<lparr>ck_chunks := (ck_chunks ck)(cid \<mapsto> (n + 1, sz, csz))\<rparr>)"
    by (rule verify_loop_present)
next
  assume refs: "i_chunks it = Some refs"
  obtain out ck' where o: "verify_loop k (i_path it) refs 0 [] ck = (Inr ([] @ out), ck')"
      "list_all2 (\<lambda>r r'. r' = r \<or> r' = zero_ref k (fst (snd r))) refs out"
    using verify_loop_total by blast
  have "verify_file_chunks k it ck = (Inr (it\<lparr>i_chunks := Some out\<rparr>), ck')"
    using refs o(1) by (simp add: verify_file_chunks_def)
  with o(2) repaired_sizes[OF o(2)]
  show "\<exists>out ck'. verify_file_chunks k it ck = (Inr (it\<lparr>i_chunks := Some out\<rparr>), ck')
           \<and> list_all2 (\<lambda>r r'. r' = r \<or> r' = zero_ref k (fst (snd r))) refs out
           \<and> map (\<lambda>r. fst (snd r)) out = map (\<lambda>r. fst (snd r)) refs"
    by blast
qed

theorem verify_file_chunks_repairs_witness:
  "''y'' \<notin> dom (ck_chunks repair_checker)
   \<and> ck_chunks repair_checker ''x'' = Some (0, 0, 0)
   \<and> i_chunks two_chunk_item = Some [(''x'', 2, 3), (''y'', 1, 2)]
   \<and> verify_file_chunks toy_key two_chunk_item repair_checker
       = (Inr (two_chunk_item\<lparr>i_chunks := Some [(''x'', 2, 3), (''#'' @ zeros 1, 1, 2)]\<rparr>),
          repair_checker
            \<lparr>ck_chunks := [''x'' \<mapsto> (1, 2, 3), ''#'' @ zeros 1 \<mapsto> (1, 1, 2)],
             ck_repository := [''x'' \<mapsto> ''Exx'', ''#'' @ zeros 1 \<mapsto> ''E'' @ zeros 1],
             ck_error_found := True,
             ck_messages := [MissingFileChunk ''f'' 2 3]\<rparr>)"
proof -
  have ev: "verify_file_chunks toy_key two_chunk_item repair_checker
       = (Inr (two_chunk_item\<lparr>i_chunks := Some [(''x'', 2, 3), (''#'' @ zeros 1, 1, 2)]\<rparr>),
          repair_checker
            \<lparr>ck_chunks := [''x'' \<mapsto> (1, 2, 3), ''#'' @ zeros 1 \<mapsto> (1, 1, 2)],
             ck_repository := [''x'' \<mapsto> ''Exx'', ''#'' @ zeros 1 \<mapsto> ''E'' @ zeros 1],
             ck_error_found := True,
             ck_messages := [MissingFileChunk ''f'' 2 3]\<rparr>)"
    by (simp add: verify_file_chunks_def add_reference_def report_progress_def Let_def
        repair_checker_def two_chunk_item_def toy_key_def path_item_def zeros_def numeral_2_eq_2)
  have hyps: "''y'' \<notin> dom (ck_chunks repair_checker)"
      "ck_chunks repair_checker ''x'' = Some (0, 0, 0)"
      "i_chunks two_chunk_item = Some [(''x'', 2, 3), (''y'', 1, 2)]"
    by (simp_all add: repair_checker_def two_chunk_item_def)
  from verify_file_chunks_repairs[where ck = repair_checker and it = two_chunk_item
      and refs = "[(''x'', 2, 3), (''y'', 1, 2)]" and k = toy_key,
      THEN conjunct2, THEN conjunct2, THEN mp, OF hyps(3)]
  obtain out ck' where
    "verify_file_chunks toy_key two_chunk_item repair_checker = (Inr (two_chunk_item\<lparr>i_chunks := Some out\<rparr>), ck')"
    by blast
  with ev hyps show ?thesis by simp
qed

section \<open>Logs and frames of the combinators\<close>

lemma only_addsI:
  "(\<And>s. \<exists>cs. log (snd (m s)) = log s @ cs \<and> list_all P cs) \<Longrightarrow> only_adds log P m"
  by (simp add: only_adds_def)

lemma only_addsD:
  "only_adds log P m \<Longrightarrow> \<exists>cs. log (snd (m s)) = log s @ cs \<and> list_all P cs"
  by (simp add: only_adds_def)

lemma only_adds_retE: "only_adds log P (retE x)"
  by (simp add: only_adds_def retE_def)

lemma only_adds_throwE: "only_adds log P (throwE e)"
  by (simp add: only_adds_def throwE_def)

lemma only_adds_if:
  "only_adds log P a \<Longrightarrow> only_adds log P b \<Longrightarrow> only_adds log P (if c then a else b)"
  by simp

lemma only_adds_bindE:
  assumes "only_adds log P m" and "\<And>x. only_adds log P (f x)"
  shows "only_adds log P (bindE m f)"
proof (rule only_addsI)
  fix s
  obtain cs where cs: "log (snd (m s)) = log s @ cs" "list_all P cs"
    using only_addsD[OF assms(1)] by blast
  show "\<exists>ds. log (snd (bindE m f s)) = log s @ ds \<and> list_all P ds"
  proof (cases "m s")
    case (Pair r s')
    show ?thesis
    proof (cases r)
      case (Inl e)
      with Pair cs show ?thesis by (auto simp: bindE_def)
    next
      case (Inr x)
      obtain ds where ds: "log (snd (f x s')) = log s' @ ds" "list_all P ds"
        using only_addsD[OF assms(2)] by blast
      with Pair Inr cs have "log (snd (bindE m f s)) = log s @ (cs @ ds) \<and> list_all P (cs @ ds)"
        by (auto simp: bindE_def)
      then show ?thesis by blast
    qed
  qed
qed

lemma only_adds_forE:
  assumes "\<And>x. only_adds log P (body x)"
  shows "only_adds log P (forE xs body)"
proof (induction xs)
  case Nil
  show ?case by (simp add: only_adds_def)
next
  case (Cons x xs)
  show ?case
  proof (rule only_addsI)
    fix s
    obtain cs where cs: "log (snd (body x s)) = log s @ cs" "list_all P cs"
      using only_addsD[OF assms] by blast
    show "\<exists>ds. log (snd (forE (x # xs) body s)) = log s @ ds \<and> list_all P ds"
    proof (cases "body x s")
      case (Pair r s')
      show ?thesis
      proof (cases r)
        case (Inl e)
        with Pair cs show ?thesis by auto
      next
        case (Inr u)
        obtain ds where "log (snd (forE xs body s')) = log s' @ ds" "list_all P ds"
          using only_addsD[OF Cons.IH] by blast
        with Pair Inr cs have "log (snd (forE (x # xs) body s)) = log s @ (cs @ ds) \<and> list_all P (cs @ ds)"
          by auto
        then show ?thesis by blast
      qed
    qed
  qed
qed

lemma only_adds_mapE:
  assumes "\<And>x. only_adds log P (f x)"
  shows "only_adds log P (mapE f xs)"
proof (induction xs)
  case Nil
  show ?case by (simp add: only_adds_def)
next
  case (Cons x xs)
  show ?case
  proof (rule only_addsI)
    fix s
    obtain cs where cs: "log (snd (f x s)) = log s @ cs" "list_all P cs"
      using only_addsD[OF assms] by blast
    show "\<exists>ds. log (snd (mapE f (x # xs) s)) = log s @ ds \<and> list_all P ds"
    proof (cases "f x s")
      case (Pair r s')
      show ?thesis
      proof (cases r)
        case (Inl e)
        with Pair cs show ?thesis by auto
      next
        case (Inr y)
        obtain ds where ds: "log (snd (mapE f xs s')) = log s' @ ds" "list_all P ds"
          using only_addsD[OF Cons.IH] by blast
        have "snd (mapE f (x # xs) s) = snd (mapE f xs s')"
          using Pair Inr by (auto split: prod.splits sum.splits)
        with Pair Inr cs ds have "log (snd (mapE f (x # xs) s)) = log s @ (cs @ ds) \<and> list_all P (cs @ ds)"
          by auto
        then show ?thesis by blast
      qed
    qed
  qed
qed

lemma only_adds_ignore: "only_adds log P m \<Longrightarrow> only_adds log P (ignore_OSError m)"
  unfolding only_adds_def ignore_OSError_def
  by (auto split: prod.splits sum.splits error.splits) (metis snd_conv)+

lemma only_adds_mono:
  "only_adds log P m \<Longrightarrow> (\<And>c. P c \<Longrightarrow> Q c) \<Longrightarrow> only_adds log Q m"
  unfolding only_adds_def by (meson list.pred_mono_strong)


lemma preservesI: "(\<And>s. f (snd (m s)) = f s) \<Longrightarrow> preserves f m"
  by (simp add: preserves_def)

lemma preservesD: "preserves f m \<Longrightarrow> f (snd (m s)) = f s"
  by (simp add: preserves_def)



lemma preserves_if:
  "preserves f a \<Longrightarrow> preserves f b \<Longrightarrow> preserves f (if c then a else b)"
  by simp

lemma preserves_bindE:
  assumes "preserves f m" and "\<And>x. preserves f (g x)"
  shows "preserves f (bindE m g)"
proof (rule preservesI)
  fix s
  show "f (snd (bindE m g s)) = f s"
  proof (cases "m s")
    case (Pair r s')
    then have s': "f s' = f s" using preservesD[OF assms(1), of s] by simp
    show ?thesis
    proof (cases r)
      case (Inl e)
      with Pair s' show ?thesis by (simp add: bindE_def)
    next
      case (Inr x)
      with Pair s' preservesD[OF assms(2), of x s'] show ?thesis by (simp add: bindE_def)
    qed
  qed
qed

lemma preserves_forE:
  assumes "\<And>x. preserves f (body x)"
  shows "preserves f (forE xs body)"
proof (induction xs)
  case Nil
  show ?case by (simp add: preserves_def)
next
  case (Cons x xs)
  show ?case
  proof (rule preservesI)
    fix s
    show "f (snd (forE (x # xs) body s)) = f s"
    proof (cases "body x s")
      case (Pair r s')
      then have s': "f s' = f s" using preservesD[OF assms, of x s] by simp
      show ?thesis
      proof (cases r)
        case (Inl e)
        with Pair s' show ?thesis by simp
      next
        case (Inr u)
        with Pair s' preservesD[OF Cons.IH, of s'] show ?thesis by simp
      qed
    qed
  qed
qed

lemma preserves_mapE:
  assumes "\<And>x. preserves f (g x)"
  shows "preserves f (mapE g xs)"
proof (induction xs)
  case Nil
  show ?case by (simp add: preserves_def)
next
  case (Cons x xs)
  show ?case
  proof (rule preservesI)
    fix s
    show "f (snd (mapE g (x # xs) s)) = f s"
    proof (cases "g x s")
      case (Pair r s')
      then have s': "f s' = f s" using preservesD[OF assms, of x s] by simp
      show ?thesis
      proof (cases r)
        case (Inl e)
        with Pair s' show ?thesis by simp
      next
        case (Inr y)
        have "snd (mapE g (x # xs) s) = snd (mapE g xs s')"
          using Pair Inr by (auto split: prod.splits sum.splits)
        with s' preservesD[OF Cons.IH, of s'] show ?thesis by simp
      qed
    qed
  qed
qed

section \<open>What the cache and the items buffer add to the events\<close>

lemma only_adds_chunk_incref: "only_adds events P (chunk_incref i)"
  by (auto simp: only_adds_def chunk_incref_def split: option.splits)

lemma only_adds_chunk_decref: "only_adds events P (chunk_decref i)"
  by (auto simp: only_adds_def chunk_decref_def split: option.splits)

lemma only_adds_add_chunk: "only_adds events is_put (add_chunk k i data)"
proof (rule only_addsI)
  fix s
  show "\<exists>cs. events (snd (add_chunk k i data s)) = events s @ cs \<and> list_all is_put cs"
    using only_addsD[OF only_adds_chunk_incref[where P = is_put and i = i], where s = s]
    by (auto simp: add_chunk_def is_put_def)
qed

lemma only_adds_cache_write_chunk: "only_adds events is_put (cache_write_chunk k c)"
  unfolding cache_write_chunk_def
  by (intro only_adds_bindE only_adds_add_chunk only_adds_retE)

lemma only_adds_append_chunk:
  assumes "only_adds log P (wc c)"
  shows "only_adds (\<lambda>s. log (snd s)) P (append_chunk wc c)"
proof (rule only_addsI)
  fix s :: "chunk_buffer \<times> 'a"
  obtain cb w where s: "s = (cb, w)" by (cases s)
  obtain cs where "log (snd (wc c w)) = log w @ cs" "list_all P cs"
    using only_addsD[OF assms] by blast
  then show "\<exists>cs. log (snd (snd (append_chunk wc c s))) = log (snd s) @ cs \<and> list_all P cs"
    unfolding s by (auto simp: append_chunk_def split: prod.splits sum.splits)
qed

lemma only_adds_flush:
  assumes "\<And>c. only_adds log P (wc c)"
  shows "only_adds (\<lambda>s. log (snd s)) P (flush ch k wc final)"
proof (rule only_addsI)
  fix s :: "chunk_buffer \<times> 'a"
  obtain cb w where s: "s = (cb, w)" by (cases s)
  let ?L = "\<lambda>s :: chunk_buffer \<times> 'a. log (snd s)"
  show "\<exists>cs. ?L (snd (flush ch k wc final s)) = ?L s @ cs \<and> list_all P cs"
  proof (cases "length (cb_buffer cb) = 0")
    case True
    then show ?thesis unfolding s by (simp add: flush_def)
  next
    case False
    define chunks where "chunks = ch (cb_buffer cb) WINDOW_SIZE CHUNK_MASK CHUNK_MIN (chunk_seed k)"
    define stop where "stop = (if final \<or> length chunks = 1 then None else Some (- 1 :: int))"
    define fin where "fin = (\<lambda>u :: unit. if stop = Some (- 1) then
                    (if chunks = [] then throwE IndexError
                     else (\<lambda>(cb', s'). (Inr (), (cb'\<lparr>cb_buffer := cb_buffer cb' @ last chunks\<rparr>, s'))))
                  else (retE () :: chunk_buffer \<times> 'a \<Rightarrow> (error + unit) \<times> (chunk_buffer \<times> 'a)))"
    have fin: "only_adds ?L P (fin u)" for u
      unfolding fin_def
      by (auto simp: only_adds_def throwE_def retE_def split: prod.splits)
    have loop: "only_adds ?L P (forE (py_slice_to chunks stop) (append_chunk wc))"
      by (intro only_adds_forE only_adds_append_chunk assms)
    have eq: "flush ch k wc final (cb, w) = bindE (forE (py_slice_to chunks stop) (append_chunk wc)) fin (cb\<lparr>cb_buffer := []\<rparr>, w)"
      using False by (simp add: flush_def Let_def chunks_def stop_def fin_def)
    show ?thesis
      using only_addsD[OF only_adds_bindE[OF loop fin], where s = "(cb\<lparr>cb_buffer := []\<rparr>, w)"]
      unfolding s eq by simp
  qed
qed

lemma only_adds_add:
  assumes "\<And>c. only_adds log P (wc c)"
  shows "only_adds (\<lambda>s. log (snd s)) P (add ch k wc pk it)"
proof (rule only_addsI)
  fix s :: "chunk_buffer \<times> 'a"
  obtain cb w where s: "s = (cb, w)" by (cases s)
  show "\<exists>cs. log (snd (snd (add ch k wc pk it s))) = log (snd s) @ cs \<and> list_all P cs"
    using only_addsD[OF only_adds_flush[OF assms, where ch = ch and k = k and final = False],
        where s = "(cb\<lparr>cb_buffer := cb_buffer cb @ pk it\<rparr>, w)"]
    unfolding s by (auto simp: add_def Let_def)
qed

lemma only_adds_on_items_buffer:
  assumes "only_adds (\<lambda>s. events (snd s)) P m"
  shows "only_adds events P (on_items_buffer m)"
proof (rule only_addsI)
  fix w
  show "\<exists>cs. events (snd (on_items_buffer m w)) = events w @ cs \<and> list_all P cs"
    using only_addsD[OF assms, where s = "(a_items_buffer w, w)"]
    by (auto simp: on_items_buffer_def split: prod.splits)
qed

lemma only_adds_flush_items: "only_adds events is_put (flush_items E final)"
  unfolding flush_items_def
  by (intro only_adds_on_items_buffer only_adds_flush only_adds_cache_write_chunk)

section \<open>The order of the persistence calls\<close>

lemma commits_in_orderI:
  "(\<And>w. \<exists>n. persistence_calls (snd (m w)) = persistence_calls w @ take n commit_sequence
              \<and> (isl (fst (m w)) \<or> n = 3)) \<Longrightarrow> commits_in_order m"
  by (simp add: commits_in_order_def)

lemma commits_in_orderD:
  "commits_in_order m \<Longrightarrow>
     \<exists>n. persistence_calls (snd (m w)) = persistence_calls w @ take n commit_sequence
              \<and> (isl (fst (m w)) \<or> n = 3)"
  by (simp add: commits_in_order_def)

lemma persistence_calls_quiet:
  assumes "events w' = events w @ cs" "list_all (\<lambda>e. \<not> is_persist e) cs"
  shows "persistence_calls w' = persistence_calls w"
proof -
  have "filter is_persist cs = []"
    using assms(2) by (induction cs) auto
  then show ?thesis by (simp add: persistence_calls_def assms(1))
qed

lemma commit_tail:
  "commits_in_order (bindE (manifest_write E) (\<lambda>u. bindE (repository_commit E) (\<lambda>u. cache_commit E)))"
proof (rule commits_in_orderI)
  fix w :: world
  let ?m = "bindE (manifest_write E) (\<lambda>u. bindE (repository_commit E) (\<lambda>u. cache_commit E))"
  consider (a) "e_io_error E (events w) ManifestWrite \<noteq> None"
    | (b) "e_io_error E (events w) ManifestWrite = None"
          "e_io_error E (events w @ [ManifestWrite]) RepositoryCommit \<noteq> None"
    | (c) "e_io_error E (events w) ManifestWrite = None"
          "e_io_error E (events w @ [ManifestWrite]) RepositoryCommit = None"
    by blast
  then show "\<exists>n. persistence_calls (snd (?m w)) = persistence_calls w @ take n commit_sequence
              \<and> (isl (fst (?m w)) \<or> n = 3)"
  proof cases
    case a
    then have "persistence_calls (snd (?m w)) = persistence_calls w @ take 1 commit_sequence \<and> isl (fst (?m w))"
      by (auto simp: bindE_def manifest_write_def persist_def persistence_calls_def is_persist_def
            commit_sequence_def)
    then show ?thesis by blast
  next
    case b
    then have "persistence_calls (snd (?m w)) = persistence_calls w @ take 2 commit_sequence \<and> isl (fst (?m w))"
      by (auto simp: bindE_def manifest_write_def repository_commit_def persist_def
            persistence_calls_def is_persist_def commit_sequence_def)
    then show ?thesis by blast
  next
    case c
    then have "persistence_calls (snd (?m w)) = persistence_calls w @ take 3 commit_sequence"
      by (auto simp: bindE_def manifest_write_def repository_commit_def cache_commit_def persist_def
            persistence_calls_def is_persist_def commit_sequence_def split: option.splits)
    then show ?thesis by blast
  qed
qed

lemma commits_after_quiet:
  assumes "only_adds events (\<lambda>e. \<not> is_persist e) m" and "\<And>x. commits_in_order (f x)"
  shows "commits_in_order (bindE m f)"
proof (rule commits_in_orderI)
  fix w :: world
  obtain cs where cs: "events (snd (m w)) = events w @ cs" "list_all (\<lambda>e. \<not> is_persist e) cs"
    using only_addsD[OF assms(1)] by blast
  have q: "persistence_calls (snd (m w)) = persistence_calls w"
    by (rule persistence_calls_quiet[OF cs])
  show "\<exists>n. persistence_calls (snd (bindE m f w)) = persistence_calls w @ take n commit_sequence
              \<and> (isl (fst (bindE m f w)) \<or> n = 3)"
  proof (cases "m w")
    case (Pair r w')
    show ?thesis
    proof (cases r)
      case (Inl e)
      with Pair q have "persistence_calls (snd (bindE m f w)) = persistence_calls w @ take 0 commit_sequence
          \<and> isl (fst (bindE m f w))"
        by (simp add: bindE_def)
      then show ?thesis by blast
    next
      case (Inr x)
      with Pair q show ?thesis
        using commits_in_orderD[OF assms(2), of x w'] by (simp add: bindE_def)
    qed
  qed
qed

lemma commits_on_same_events:
  assumes "commits_in_order m" "\<And>w. events (g w) = events w"
  shows "commits_in_order (\<lambda>w. m (g w))"
proof (rule commits_in_orderI)
  fix w :: world
  show "\<exists>n. persistence_calls (snd (m (g w))) = persistence_calls w @ take n commit_sequence
              \<and> (isl (fst (m (g w))) \<or> n = 3)"
    using commits_in_orderD[OF assms(1), of "g w"] by (simp add: persistence_calls_def assms(2))
qed

lemma put_not_persist: "is_put e \<Longrightarrow> \<not> is_persist e"
  by (auto simp: is_put_def is_persist_def split: event.splits)

lemma commits_save_tail:
  "commits_in_order (\<lambda>w1.
      bindE (add_chunk k i data)
        (\<lambda>r w3. bindE (manifest_write E) (\<lambda>u. bindE (repository_commit E) (\<lambda>u. cache_commit E))
                  (w3\<lparr>manifest_archives := (manifest_archives w3)(name \<mapsto> v)\<rparr>))
        (w1\<lparr>clock := clock w1 + 1, a_id := Some i\<rparr>))"
proof -
  have 1: "commits_in_order (\<lambda>w3. bindE (manifest_write E) (\<lambda>u. bindE (repository_commit E) (\<lambda>u. cache_commit E))
                  (w3\<lparr>manifest_archives := (manifest_archives w3)(name \<mapsto> v)\<rparr>))"
    by (rule commits_on_same_events[OF commit_tail]) simp
  have 2: "commits_in_order (bindE (add_chunk k i data)
        (\<lambda>r w3. bindE (manifest_write E) (\<lambda>u. bindE (repository_commit E) (\<lambda>u. cache_commit E))
                  (w3\<lparr>manifest_archives := (manifest_archives w3)(name \<mapsto> v)\<rparr>)))"
    by (rule commits_after_quiet[OF only_adds_mono[OF only_adds_add_chunk put_not_persist] 1])
  show ?thesis
    by (rule commits_on_same_events[OF 2]) simp
qed

lemma commits_save: "commits_in_order (save E name_arg)"
proof (rule commits_in_orderI)
  fix w :: world
  define name where "name = (case name_arg of None \<Rightarrow> a_name w | Some n \<Rightarrow> if n \<noteq> [] then n else a_name w)"
  show "\<exists>n. persistence_calls (snd (save E name_arg w)) = persistence_calls w @ take n commit_sequence
              \<and> (isl (fst (save E name_arg w)) \<or> n = 3)"
  proof (cases "name \<in> dom (manifest_archives w)")
    case True
    then have "save E name_arg w = (Inl (AlreadyExists name), w)"
      by (simp add: save_def Let_def name_def)
    then have "persistence_calls (snd (save E name_arg w)) = persistence_calls w @ take 0 commit_sequence
        \<and> isl (fst (save E name_arg w))"
      by simp
    then show ?thesis by blast
  next
    case False
    let ?f = "\<lambda>(u::unit) w1.
                bindE (add_chunk (e_key E) (id_hash (e_key E) (e_packb E (archive_metadata E name w1)))
                         (e_packb E (archive_metadata E name w1)))
                     (\<lambda>r w3.
                        bindE (manifest_write E)
                          (\<lambda>u. bindE (repository_commit E) (\<lambda>u. cache_commit E))
                          (w3\<lparr>manifest_archives :=
                                (manifest_archives w3)(name \<mapsto> (id_hash (e_key E) (e_packb E (archive_metadata E name w1)),
                                    md_time (archive_metadata E name w1)))\<rparr>))
                     (w1\<lparr>clock := clock w1 + 1, a_id := Some (id_hash (e_key E) (e_packb E (archive_metadata E name w1)))\<rparr>)"
    have eq: "save E name_arg w = bindE (flush_items E True) ?f w"
      using False by (simp add: save_def Let_def name_def)
    have f: "commits_in_order (?f u)" for u :: unit
    proof (rule commits_in_orderI)
      fix w1 :: world
      show "\<exists>n. persistence_calls (snd (?f u w1)) = persistence_calls w1 @ take n commit_sequence
              \<and> (isl (fst (?f u w1)) \<or> n = 3)"
        using commits_in_orderD[OF commits_save_tail, of _ _ _ _ _ _ w1] by simp
    qed
    have "commits_in_order (bindE (flush_items E True) ?f)"
      by (rule commits_after_quiet[OF only_adds_mono[OF only_adds_flush_items put_not_persist] f])
    then show ?thesis
      unfolding eq by (rule commits_in_orderD)
  qed
qed

lemma only_adds_delete_item: "only_adds events P (delete_item ob)"
  unfolding delete_item_def
  by (cases ob) (auto split: option.splits intro!: only_adds_throwE only_adds_retE only_adds_forE only_adds_chunk_decref)

lemma only_adds_delete_loop: "only_adds events P (delete_loop E ids buf)"
proof (induction ids arbitrary: buf)
  case Nil
  show ?case by (simp add: only_adds_def)
next
  case (Cons i ids)
  show ?case
  proof (rule only_addsI)
    fix w :: world
    show "\<exists>cs. events (snd (delete_loop E (i # ids) buf w)) = events w @ cs \<and> list_all P cs"
    proof (cases "repo_objects w i")
      case None
      then show ?thesis by simp
    next
      case (Some cdata)
      show ?thesis
      proof (cases "decrypt (e_key E) i cdata")
        case None
        with Some show ?thesis by simp
      next
        case (Some data)
        obtain obs buf' where u: "e_unpack E (buf @ data) = (obs, buf')" by (cases "e_unpack E (buf @ data)")
        have "only_adds events P (bindE (chunk_decref i)
                      (\<lambda>u. bindE (forE obs delete_item) (\<lambda>u. delete_loop E ids buf')))"
          by (intro only_adds_bindE only_adds_chunk_decref only_adds_forE only_adds_delete_item Cons.IH)
        from only_addsD[OF this, of w] show ?thesis
          using \<open>repo_objects w i = Some cdata\<close> Some u by simp
      qed
    qed
  qed
qed

lemma commits_delete: "commits_in_order (delete E)"
proof (rule commits_in_orderI)
  fix w :: world
  let ?tail = "\<lambda>(u::unit) w2.
          if a_name w2 \<notin> dom (manifest_archives w2) then (Inl (KeyError (a_name w2)), w2)
          else bindE (manifest_write E)
                 (\<lambda>u. bindE (repository_commit E) (\<lambda>u. cache_commit E))
                 (w2\<lparr>manifest_archives := (manifest_archives w2)(a_name w2 := None)\<rparr>)"
  let ?dec = "\<lambda>w. case a_id w of
                          None \<Rightarrow> (Inl (AttributeError ''id''), w)
                        | Some i \<Rightarrow> chunk_decref i w"
  have tail: "commits_in_order (?tail u)" for u :: unit
  proof (rule commits_in_orderI)
    fix w2 :: world
    show "\<exists>n. persistence_calls (snd (?tail u w2)) = persistence_calls w2 @ take n commit_sequence
              \<and> (isl (fst (?tail u w2)) \<or> n = 3)"
    proof (cases "a_name w2 \<notin> dom (manifest_archives w2)")
      case True
      then have "persistence_calls (snd (?tail u w2)) = persistence_calls w2 @ take 0 commit_sequence
              \<and> isl (fst (?tail u w2))" by simp
      then show ?thesis by blast
    next
      case False
      then show ?thesis
        using commits_in_orderD[OF commit_tail, of E "w2\<lparr>manifest_archives := (manifest_archives w2)(a_name w2 := None)\<rparr>"]
        by (simp add: persistence_calls_def)
    qed
  qed
  have dec: "only_adds events (\<lambda>e. \<not> is_persist e) ?dec"
    using only_adds_chunk_decref[where P = "\<lambda>e. \<not> is_persist e"]
    by (auto simp: only_adds_def split: option.splits)
  have "commits_in_order (bindE (delete_loop E (a_metadata_items w) []) (\<lambda>u. bindE ?dec ?tail))"
    by (intro commits_after_quiet only_adds_delete_loop dec tail)
  from commits_in_orderD[OF this, of w]
  show "\<exists>n. persistence_calls (snd (delete E w)) = persistence_calls w @ take n commit_sequence
              \<and> (isl (fst (delete E w)) \<or> n = 3)"
    by (simp add: delete_def)
qed

text \<open>
  C4. Of \<open>manifest.write()\<close>, \<open>repository.commit()\<close> and \<open>cache.commit()\<close>, what
  \<open>save\<close> and \<open>delete\<close> call is a beginning of that sequence, in that order: all
  three when the operation returns normally, fewer when it raised before or in one of
  them. So \<open>repository.commit\<close> is never called before \<open>manifest.write\<close>, nor
  \<open>cache.commit\<close> before \<open>repository.commit\<close>.
\<close>

theorem persistence_order:
  "(\<exists>n. persistence_calls (snd (save E name w))
          = persistence_calls w @ take n [ManifestWrite, RepositoryCommit, CacheCommit])
   \<and> (fst (save E name w) = Inr () \<longrightarrow>
        persistence_calls (snd (save E name w))
          = persistence_calls w @ [ManifestWrite, RepositoryCommit, CacheCommit])
   \<and> (\<exists>n. persistence_calls (snd (delete E w))
          = persistence_calls w @ take n [ManifestWrite, RepositoryCommit, CacheCommit])
   \<and> (fst (delete E w) = Inr () \<longrightarrow>
        persistence_calls (snd (delete E w))
          = persistence_calls w @ [ManifestWrite, RepositoryCommit, CacheCommit])"
proof -
  obtain n where n: "persistence_calls (snd (save E name w)) = persistence_calls w @ take n commit_sequence"
      "isl (fst (save E name w)) \<or> n = 3"
    using commits_in_orderD[OF commits_save] by blast
  obtain m where m: "persistence_calls (snd (delete E w)) = persistence_calls w @ take m commit_sequence"
      "isl (fst (delete E w)) \<or> m = 3"
    using commits_in_orderD[OF commits_delete] by blast
  have s: "fst (save E name w) = Inr () \<longrightarrow> n = 3" using n(2) by auto
  have d: "fst (delete E w) = Inr () \<longrightarrow> m = 3" using m(2) by auto
  show ?thesis
    using n(1) m(1) s d unfolding commit_sequence_def by auto
qed


lemmas world_eval =
  save_def delete_def write_checkpoint_def add_item_def flush_items_def on_items_buffer_def
  flush_def add_def is_full_def BUFFER_SIZE_def append_chunk_def py_slice_to_def
  cache_write_chunk_def add_chunk_def chunk_incref_def chunk_decref_def seen_chunk_def
  archive_metadata_def manifest_write_def repository_commit_def cache_commit_def persist_def
  bindE_def retE_def throwE_def Let_def WINDOW_SIZE_def CHUNK_MASK_def CHUNK_MIN_def

lemmas toy_eval =
  toy_env_def toy_key_def toy_chunkify_def toy_unpack_def new_world_def saved_world_def

lemma save_new_world: "save toy_env None new_world = (Inr (), saved_world)"
  by (simp add: world_eval toy_eval numeral_2_eq_2 numeral_3_eq_3)

lemma delete_saved_world:
  "delete toy_env saved_world =
     (Inr (), saved_world
        \<lparr>cache_chunks := [''#A:'' \<mapsto> (0, 2, 3)], manifest_archives := Map.empty,
         events := [RepositoryPut ''#A:'', ManifestWrite, RepositoryCommit, CacheCommit,
                    ManifestWrite, RepositoryCommit, CacheCommit]\<rparr>)"
  by (simp add: world_eval toy_eval)

theorem persistence_order_witness:
  "fst (save toy_env None new_world) = Inr ()
   \<and> persistence_calls (snd (save toy_env None new_world))
       = persistence_calls new_world @ [ManifestWrite, RepositoryCommit, CacheCommit]
   \<and> fst (delete toy_env saved_world) = Inr ()
   \<and> persistence_calls (snd (delete toy_env saved_world))
       = persistence_calls saved_world @ [ManifestWrite, RepositoryCommit, CacheCommit]"
  using persistence_order[of toy_env None new_world] persistence_order[of toy_env None saved_world]
  by (simp add: save_new_world delete_saved_world)

section \<open>Checkpoints\<close>

lemma preserves_append_chunk:
  assumes "preserves f (wc c)"
  shows "preserves (\<lambda>s. f (snd s)) (append_chunk wc c)"
proof (rule preservesI)
  fix s :: "chunk_buffer \<times> 'a"
  obtain cb w where s: "s = (cb, w)" by (cases s)
  show "f (snd (snd (append_chunk wc c s))) = f (snd s)"
    using preservesD[OF assms, of w]
    unfolding s by (auto simp: append_chunk_def split: prod.splits sum.splits)
qed

lemma preserves_flush:
  assumes "\<And>c. preserves f (wc c)"
  shows "preserves (\<lambda>s. f (snd s)) (flush ch k wc final)"
proof (rule preservesI)
  fix s :: "chunk_buffer \<times> 'a"
  obtain cb w where s: "s = (cb, w)" by (cases s)
  let ?F = "\<lambda>s :: chunk_buffer \<times> 'a. f (snd s)"
  show "?F (snd (flush ch k wc final s)) = ?F s"
  proof (cases "length (cb_buffer cb) = 0")
    case True
    then show ?thesis unfolding s by (simp add: flush_def)
  next
    case False
    define chunks where "chunks = ch (cb_buffer cb) WINDOW_SIZE CHUNK_MASK CHUNK_MIN (chunk_seed k)"
    define stop where "stop = (if final \<or> length chunks = 1 then None else Some (- 1 :: int))"
    define fin where "fin = (\<lambda>u :: unit. if stop = Some (- 1) then
                    (if chunks = [] then throwE IndexError
                     else (\<lambda>(cb', s'). (Inr (), (cb'\<lparr>cb_buffer := cb_buffer cb' @ last chunks\<rparr>, s'))))
                  else (retE () :: chunk_buffer \<times> 'a \<Rightarrow> (error + unit) \<times> (chunk_buffer \<times> 'a)))"
    have fin: "preserves ?F (fin u)" for u
      unfolding fin_def
      by (auto simp: preserves_def throwE_def retE_def split: prod.splits)
    have loop: "preserves ?F (forE (py_slice_to chunks stop) (append_chunk wc))"
      by (intro preserves_forE preserves_append_chunk assms)
    have eq: "flush ch k wc final (cb, w) = bindE (forE (py_slice_to chunks stop) (append_chunk wc)) fin (cb\<lparr>cb_buffer := []\<rparr>, w)"
      using False by (simp add: flush_def Let_def chunks_def stop_def fin_def)
    show ?thesis
      using preservesD[OF preserves_bindE[OF loop fin], where s = "(cb\<lparr>cb_buffer := []\<rparr>, w)"]
      unfolding s eq by simp
  qed
qed

lemma preserves_on_items_buffer:
  assumes "preserves (\<lambda>s. f (snd s)) m" and "\<And>w cb. f (w\<lparr>a_items_buffer := cb\<rparr>) = f w"
  shows "preserves f (on_items_buffer m)"
proof (rule preservesI)
  fix w
  show "f (snd (on_items_buffer m w)) = f w"
    using preservesD[OF assms(1), where s = "(a_items_buffer w, w)"] assms(2)
    by (auto simp: on_items_buffer_def split: prod.splits)
qed

lemma add_chunk_result:
  "\<exists>sz csz. add_chunk k i d w =
      (Inr (i, sz, csz),
       if i \<in> dom (cache_chunks w)
       then w\<lparr>cache_chunks := (cache_chunks w)(i \<mapsto> (refcount w i + 1, sz, csz))\<rparr>
       else w\<lparr>cache_chunks := (cache_chunks w)(i \<mapsto> (refcount w i + 1, sz, csz)),
              repo_objects := (repo_objects w)(i \<mapsto> encrypt k d),
              events := events w @ [RepositoryPut i]\<rparr>)"
  by (auto simp: add_chunk_def chunk_incref_def seen_chunk_def refcount_def split: option.splits)

lemma preserves_cache_write_chunk_name: "preserves a_checkpoint_name (cache_write_chunk k c)"
proof (rule preservesI)
  fix w :: world
  obtain sz csz where "add_chunk k (id_hash k c) c w =
      (Inr (id_hash k c, sz, csz),
       if id_hash k c \<in> dom (cache_chunks w)
       then w\<lparr>cache_chunks := (cache_chunks w)(id_hash k c \<mapsto> (refcount w (id_hash k c) + 1, sz, csz))\<rparr>
       else w\<lparr>cache_chunks := (cache_chunks w)(id_hash k c \<mapsto> (refcount w (id_hash k c) + 1, sz, csz)),
              repo_objects := (repo_objects w)(id_hash k c \<mapsto> encrypt k c),
              events := events w @ [RepositoryPut (id_hash k c)]\<rparr>)"
    using add_chunk_result by blast
  then show "a_checkpoint_name (snd (cache_write_chunk k c w)) = a_checkpoint_name w"
    by (simp add: cache_write_chunk_def bindE_def retE_def)
qed

lemma flush_items_checkpoint_name:
  "a_checkpoint_name (snd (flush_items E final w)) = a_checkpoint_name w"
proof -
  have "preserves a_checkpoint_name (flush_items E final)"
    unfolding flush_items_def
    by (intro preserves_on_items_buffer preserves_flush preserves_cache_write_chunk_name) simp
  then show ?thesis by (rule preservesD)
qed

lemma commit_tail_success:
  assumes "bindE (manifest_write E) (\<lambda>u. bindE (repository_commit E) (\<lambda>u. cache_commit E)) w = (Inr (), w')"
  shows "w' = w\<lparr>events := events w @ [ManifestWrite, RepositoryCommit, CacheCommit], cache_txn := None\<rparr>"
  using assms
  by (auto simp: bindE_def manifest_write_def repository_commit_def cache_commit_def persist_def
      split: option.splits)

lemma save_success:
  assumes ok: "save E (Some cn) w = (Inr (), w1)" and cn: "cn \<noteq> []"
  defines "wfl \<equiv> snd (flush_items E True w)"
  defines "cid \<equiv> id_hash (e_key E) (e_packb E (archive_metadata E cn wfl))"
  shows "\<exists>sz csz. a_id w1 = Some cid \<and> cn \<in> dom (manifest_archives w1)
           \<and> a_checkpoint_name w1 = a_checkpoint_name w
           \<and> cache_chunks w1 = (cache_chunks wfl)(cid \<mapsto> (refcount wfl cid + 1, sz, csz))"
proof -
  have fresh: "cn \<notin> dom (manifest_archives w)"
    using ok cn by (auto simp: save_def Let_def split: if_splits)
  obtain r where fl: "flush_items E True w = (r, wfl)"
    unfolding wfl_def by (cases "flush_items E True w") simp
  have r: "r = Inr ()"
    using ok cn fresh fl by (cases r) (auto simp: save_def Let_def bindE_def)
  define w2 where "w2 = wfl\<lparr>clock := clock wfl + 1, a_id := Some cid\<rparr>"
  obtain sz csz where ac: "add_chunk (e_key E) cid (e_packb E (archive_metadata E cn wfl)) w2 =
      (Inr (cid, sz, csz),
       if cid \<in> dom (cache_chunks w2)
       then w2\<lparr>cache_chunks := (cache_chunks w2)(cid \<mapsto> (refcount w2 cid + 1, sz, csz))\<rparr>
       else w2\<lparr>cache_chunks := (cache_chunks w2)(cid \<mapsto> (refcount w2 cid + 1, sz, csz)),
              repo_objects := (repo_objects w2)(cid \<mapsto> encrypt (e_key E) (e_packb E (archive_metadata E cn wfl))),
              events := events w2 @ [RepositoryPut cid]\<rparr>)"
    using add_chunk_result by blast
  define w3 where "w3 = snd (add_chunk (e_key E) cid (e_packb E (archive_metadata E cn wfl)) w2)"
  have w3: "a_id w3 = Some cid" "a_checkpoint_name w3 = a_checkpoint_name wfl"
      "cache_chunks w3 = (cache_chunks wfl)(cid \<mapsto> (refcount wfl cid + 1, sz, csz))"
    unfolding w3_def ac by (simp_all add: w2_def refcount_def)
  define w4 where "w4 = w3\<lparr>manifest_archives :=
        (manifest_archives w3)(cn \<mapsto> (cid, md_time (archive_metadata E cn wfl)))\<rparr>"
  have "bindE (manifest_write E) (\<lambda>u. bindE (repository_commit E) (\<lambda>u. cache_commit E)) w4 = (Inr (), w1)"
    using ok cn fresh fl r ac
    by (simp add: save_def Let_def bindE_def w4_def w3_def w2_def cid_def)
  from commit_tail_success[OF this]
  have "a_id w1 = Some cid" "cn \<in> dom (manifest_archives w1)"
      "a_checkpoint_name w1 = a_checkpoint_name wfl"
      "cache_chunks w1 = (cache_chunks wfl)(cid \<mapsto> (refcount wfl cid + 1, sz, csz))"
    using w3 by (simp_all add: w4_def)
  moreover have "a_checkpoint_name wfl = a_checkpoint_name w"
    unfolding wfl_def by (rule flush_items_checkpoint_name)
  ultimately show ?thesis by auto
qed

text \<open>
  C3. When \<open>write_checkpoint\<close> returns, the one called by \<open>add_item\<close> once the
  checkpoint interval has passed, the checkpoint's name is absent from
  \<^verbatim>\<open>manifest.archives\<close>; \<open>self.id\<close> is the id of the checkpoint's metadata block, the
  one \<open>save\<close> hashed and added to the cache, and it is on this id that \<open>chunk_decref\<close>
  ran: its reference count is what it was when the block was about to be added, that
  is after the flush of the items buffer that \<open>save\<close> starts with, and no other id's
  entry differs from then. With nothing to flush, that is the count before the call.
  (The checkpoint name is not empty: \<open>__init__\<close> builds it from \<open>.checkpoint\<close>.)
\<close>

theorem write_checkpoint_does_not_linger:
  assumes "write_checkpoint E w = (Inr (), w')" and "a_checkpoint_name w \<noteq> []"
  shows "a_checkpoint_name w \<notin> dom (manifest_archives w')
         \<and> a_id w' = Some (checkpoint_id E w)
         \<and> refcount w' (checkpoint_id E w)
             = refcount (snd (flush_items E True w)) (checkpoint_id E w)
         \<and> (\<forall>j. j = checkpoint_id E w
                \<or> cache_chunks w' j = cache_chunks (snd (flush_items E True w)) j)
         \<and> (if cb_buffer (a_items_buffer w) = []
             then refcount w' (checkpoint_id E w) = refcount w (checkpoint_id E w)
             else True)"
proof -
  define cn where "cn = a_checkpoint_name w"
  define wfl where "wfl = snd (flush_items E True w)"
  define cid where "cid = checkpoint_id E w"
  obtain r w1 where sv: "save E (Some cn) w = (r, w1)" by (cases "save E (Some cn) w")
  have r: "r = Inr ()"
    using assms(1) sv by (cases r) (auto simp: write_checkpoint_def bindE_def cn_def)
  obtain sz csz where w1: "a_id w1 = Some cid" "cn \<in> dom (manifest_archives w1)"
      "a_checkpoint_name w1 = cn"
      "cache_chunks w1 = (cache_chunks wfl)(cid \<mapsto> (refcount wfl cid + 1, sz, csz))"
    using save_success[OF sv[unfolded r]] assms(2)
    unfolding cn_def wfl_def cid_def checkpoint_id_def by blast
  define w2 where "w2 = w1\<lparr>manifest_archives := (manifest_archives w1)(cn := None)\<rparr>"
  have dec: "chunk_decref cid w2 = (Inr (), w')"
    using assms(1) sv r w1(1,2,3)
    by (simp add: write_checkpoint_def bindE_def cn_def[symmetric] w2_def)
  have w': "w' = w2\<lparr>cache_chunks := (cache_chunks w2)(cid \<mapsto> (refcount wfl cid + 1 - 1, sz, csz))\<rparr>"
    using dec w1(4) by (simp add: chunk_decref_def w2_def)
  have 1: "cn \<notin> dom (manifest_archives w')" by (simp add: w' w2_def)
  have 2: "a_id w' = Some cid" by (simp add: w' w2_def w1(1))
  have 3: "refcount w' cid = refcount wfl cid" by (simp add: w' refcount_def)
  have 4: "\<forall>j. j = cid \<or> cache_chunks w' j = cache_chunks wfl j"
    by (simp add: w' w2_def w1(4))
  have 5: "cb_buffer (a_items_buffer w) = [] \<Longrightarrow> wfl = w"
    by (simp add: wfl_def flush_items_def on_items_buffer_def flush_def)
  show ?thesis
    using 1 2 3 4 5 unfolding cn_def wfl_def cid_def by auto
qed

theorem write_checkpoint_does_not_linger_witness:
  "fst (write_checkpoint toy_env new_world) = Inr ()
   \<and> a_checkpoint_name new_world \<noteq> []
   \<and> ''A.checkpoint'' \<notin> dom (manifest_archives (snd (write_checkpoint toy_env new_world)))
   \<and> a_id (snd (write_checkpoint toy_env new_world)) = Some ''#A.checkpoint:''
   \<and> refcount (snd (write_checkpoint toy_env new_world)) ''#A.checkpoint:'' = 0"
proof -
  have ok: "fst (write_checkpoint toy_env new_world) = Inr ()"
    by (simp add: world_eval toy_eval)
  then have run: "write_checkpoint toy_env new_world = (Inr (), snd (write_checkpoint toy_env new_world))"
    by (metis prod.collapse)
  have name: "a_checkpoint_name new_world \<noteq> []" "a_checkpoint_name new_world = ''A.checkpoint''"
      "cb_buffer (a_items_buffer new_world) = []"
    by (simp_all add: new_world_def)
  have cid: "checkpoint_id toy_env new_world = ''#A.checkpoint:''"
    by (simp add: checkpoint_id_def world_eval toy_eval)
  have before: "refcount new_world ''#A.checkpoint:'' = 0"
    by (simp add: refcount_def new_world_def)
  show ?thesis
    using write_checkpoint_does_not_linger[OF run name(1)] ok name before
    by (simp add: cid)
qed

section \<open>Ingest of a regular file\<close>

lemma only_adds_pointwise:
  assumes "\<And>s. \<exists>m g. h s = m (g s) \<and> only_adds log P m \<and> log (g s) = log s"
  shows "only_adds log P h"
proof (rule only_addsI)
  fix s
  obtain m g where h: "h s = m (g s)" "only_adds log P m" "log (g s) = log s"
    using assms by blast
  show "\<exists>cs. log (snd (h s)) = log s @ cs \<and> list_all P cs"
    using only_addsD[OF h(2), of "g s"] h(1,3) by simp
qed

lemma only_adds_persist: "P ev \<Longrightarrow> only_adds events P (persist E ev)"
  by (auto simp: only_adds_def persist_def split: option.splits)

lemma only_adds_commit_tail:
  assumes "P ManifestWrite" "P RepositoryCommit" "P CacheCommit"
  shows "only_adds events P (bindE (manifest_write E) (\<lambda>u. bindE (repository_commit E) (\<lambda>u. cache_commit E)))"
  unfolding manifest_write_def repository_commit_def cache_commit_def
  by (intro only_adds_bindE only_adds_persist assms) (simp add: only_adds_def)

lemma only_adds_save:
  assumes "\<And>i. P (RepositoryPut i)" "P ManifestWrite" "P RepositoryCommit" "P CacheCommit"
  shows "only_adds events P (save E name_arg)"
proof (rule only_addsI)
  fix w :: world
  define name where "name = (case name_arg of None \<Rightarrow> a_name w | Some n \<Rightarrow> if n \<noteq> [] then n else a_name w)"
  have put: "is_put e \<Longrightarrow> P e" for e
    using assms(1) by (cases e) (simp_all add: is_put_def)
  show "\<exists>cs. events (snd (save E name_arg w)) = events w @ cs \<and> list_all P cs"
  proof (cases "name \<in> dom (manifest_archives w)")
    case True
    then show ?thesis by (simp add: save_def Let_def name_def)
  next
    case False
    let ?f = "\<lambda>(u::unit) w1.
                bindE (add_chunk (e_key E) (id_hash (e_key E) (e_packb E (archive_metadata E name w1)))
                         (e_packb E (archive_metadata E name w1)))
                     (\<lambda>r w3.
                        bindE (manifest_write E)
                          (\<lambda>u. bindE (repository_commit E) (\<lambda>u. cache_commit E))
                          (w3\<lparr>manifest_archives :=
                                (manifest_archives w3)(name \<mapsto> (id_hash (e_key E) (e_packb E (archive_metadata E name w1)),
                                    md_time (archive_metadata E name w1)))\<rparr>))
                     (w1\<lparr>clock := clock w1 + 1, a_id := Some (id_hash (e_key E) (e_packb E (archive_metadata E name w1)))\<rparr>)"
    have eq: "save E name_arg w = bindE (flush_items E True) ?f w"
      using False by (simp add: save_def Let_def name_def)
    have tail: "only_adds events P (\<lambda>w3. bindE (manifest_write E)
                          (\<lambda>u. bindE (repository_commit E) (\<lambda>u. cache_commit E))
                          (w3\<lparr>manifest_archives := (manifest_archives w3)(name \<mapsto> v)\<rparr>))" for v
      by (rule only_adds_pointwise)
         (rule exI[where x = "bindE (manifest_write E) (\<lambda>u. bindE (repository_commit E) (\<lambda>u. cache_commit E))"],
          rule exI[where x = "\<lambda>w3. w3\<lparr>manifest_archives := (manifest_archives w3)(name \<mapsto> v)\<rparr>"],
          simp add: only_adds_commit_tail assms)
    have f: "only_adds events P (?f u)" for u :: unit
    proof (rule only_adds_pointwise)
      fix w1 :: world
      let ?i = "id_hash (e_key E) (e_packb E (archive_metadata E name w1))"
      let ?m = "bindE (add_chunk (e_key E) ?i (e_packb E (archive_metadata E name w1)))
                     (\<lambda>r w3.
                        bindE (manifest_write E)
                          (\<lambda>u. bindE (repository_commit E) (\<lambda>u. cache_commit E))
                          (w3\<lparr>manifest_archives :=
                                (manifest_archives w3)(name \<mapsto> (?i, md_time (archive_metadata E name w1)))\<rparr>))"
      let ?g = "\<lambda>w1 :: world. w1\<lparr>clock := clock w1 + 1, a_id := Some ?i\<rparr>"
      have A: "?f u w1 = ?m (?g w1)" by simp
      have B: "only_adds events P ?m"
        by (intro only_adds_bindE only_adds_mono[OF only_adds_add_chunk put] tail)
      have C: "events (?g w1) = events w1" by simp
      show "\<exists>m g. ?f u w1 = m (g w1) \<and> only_adds events P m \<and> events (g w1) = events w1"
        apply (rule exI[of _ ?m])
        apply (rule exI[of _ ?g])
        apply (intro conjI A B C)
        done
    qed
    have "only_adds events P (bindE (flush_items E True) ?f)"
      by (intro only_adds_bindE only_adds_mono[OF only_adds_flush_items put] f)
    then show ?thesis
      unfolding eq by (rule only_addsD)
  qed
qed

lemma only_adds_write_checkpoint:
  assumes "\<And>i. P (RepositoryPut i)" "P ManifestWrite" "P RepositoryCommit" "P CacheCommit"
  shows "only_adds events P (write_checkpoint E)"
proof (rule only_addsI)
  fix w :: world
  let ?rest = "\<lambda>(u::unit) w1.
          if a_checkpoint_name w1 \<notin> dom (manifest_archives w1)
          then (Inl (KeyError (a_checkpoint_name w1)), w1)
          else
            (let w2 = w1\<lparr>manifest_archives := (manifest_archives w1)(a_checkpoint_name w1 := None)\<rparr>
             in case a_id w2 of
                  None \<Rightarrow> (Inl (AttributeError ''id''), w2)
                | Some i \<Rightarrow> chunk_decref i w2)"
  have rest: "only_adds events P (?rest u)" for u :: unit
    by (auto simp: only_adds_def Let_def chunk_decref_def split: option.splits)
  have "only_adds events P (bindE (save E (Some (a_checkpoint_name w))) ?rest)"
    by (intro only_adds_bindE only_adds_save assms rest)
  from only_addsD[OF this, of w]
  show "\<exists>cs. events (snd (write_checkpoint E w)) = events w @ cs \<and> list_all P cs"
    by (simp add: write_checkpoint_def)
qed

lemma only_adds_add_item:
  assumes "\<And>i. P (RepositoryPut i)" "P ManifestWrite" "P RepositoryCommit" "P CacheCommit"
  shows "only_adds events P (add_item E it)"
proof -
  have put: "is_put e \<Longrightarrow> P e" for e
    using assms(1) by (cases e) (simp_all add: is_put_def)
  let ?rest = "\<lambda>(u::unit) w1.
          let now = e_time E (clock w1);
              w2 = w1\<lparr>clock := clock w1 + 1\<rparr>
          in if now - a_last_checkpoint w2 > a_checkpoint_interval w2
             then write_checkpoint E (w2\<lparr>a_last_checkpoint := now\<rparr>)
             else (Inr (), w2)"
  have rest: "only_adds events P (?rest u)" for u :: unit
  proof (rule only_addsI)
    fix w1 :: world
    show "\<exists>cs. events (snd (?rest u w1)) = events w1 @ cs \<and> list_all P cs"
      using only_addsD[OF only_adds_write_checkpoint[OF assms, of E],
          of "w1\<lparr>clock := clock w1 + 1, a_last_checkpoint := e_time E (clock w1)\<rparr>"]
      by (simp add: Let_def)
  qed
  have buf: "only_adds events P
      (on_items_buffer (add (e_chunkify E) (e_key E) (cache_write_chunk (e_key E)) (e_pack E) it))"
    by (intro only_adds_on_items_buffer only_adds_add only_adds_mono[OF only_adds_cache_write_chunk put])
  show ?thesis
    unfolding add_item_def by (intro only_adds_bindE buf rest)
qed

lemma add_item_opens_no_file:
  "\<exists>cs. events (snd (add_item E it w)) = events w @ cs \<and> list_all (\<lambda>e. \<not> is_file_open e) cs"
  by (rule only_addsD[OF only_adds_add_item]) (simp_all add: is_file_open_def)


lemma incref_all_seen:
  "list_all (seen_chunk w) ids \<Longrightarrow>
   \<exists>chunks w1. mapE chunk_incref ids w = (Inr chunks, w1) \<and> map fst chunks = ids
      \<and> events w1 = events w"
proof (induction ids arbitrary: w)
  case Nil
  show ?case by simp
next
  case (Cons i ids)
  then obtain n sz csz where e: "cache_chunks w i = Some (n, sz, csz)"
    by (auto simp: seen_chunk_def)
  define w' where "w' = w\<lparr>cache_chunks := (cache_chunks w)(i \<mapsto> (n + 1, sz, csz))\<rparr>"
  have step: "chunk_incref i w = (Inr (i, sz, csz), w')"
    by (simp add: chunk_incref_def e w'_def)
  have "list_all (seen_chunk w') ids"
    using Cons.prems by (auto simp: seen_chunk_def w'_def list_all_iff)
  from Cons.IH[OF this] obtain chunks w1 where
    "mapE chunk_incref ids w' = (Inr chunks, w1)" "map fst chunks = ids" "events w1 = events w'"
    by blast
  then have "mapE chunk_incref (i # ids) w = (Inr ((i, sz, csz) # chunks), w1)
      \<and> map fst ((i, sz, csz) # chunks) = i # ids \<and> events w1 = events w"
    by (simp add: step w'_def)
  then show ?case
    by (intro exI[of _ "(i, sz, csz) # chunks"] exI[of _ w1])
qed

lemma add_all_chunks:
  "\<exists>chunks w2. mapE (\<lambda>c. add_chunk k (id_hash k c) c) cs w = (Inr chunks, w2)
      \<and> map fst chunks = map (id_hash k) cs"
proof (induction cs arbitrary: w)
  case Nil
  show ?case by simp
next
  case (Cons c cs)
  obtain sz csz w' where step: "add_chunk k (id_hash k c) c w = (Inr (id_hash k c, sz, csz), w')"
    using add_chunk_result[of k "id_hash k c" c w] by blast
  obtain chunks w2 where "mapE (\<lambda>c. add_chunk k (id_hash k c) c) cs w' = (Inr chunks, w2)"
      "map fst chunks = map (id_hash k) cs"
    using Cons.IH by blast
  then have "mapE (\<lambda>c. add_chunk k (id_hash k c) c) (c # cs) w = (Inr ((id_hash k c, sz, csz) # chunks), w2)
      \<and> map fst ((id_hash k c, sz, csz) # chunks) = map (id_hash k) (c # cs)"
    by (simp add: step)
  then show ?case
    by (intro exI[of _ "(id_hash k c, sz, csz) # chunks"] exI[of _ w2])
qed

text \<open>
  C6. \<open>process_file\<close> on a file that is not a link to an inode seen before. If the
  cache's memo returns ids and \<open>seen_chunk\<close> holds of each, then \<open>chunk_incref\<close> runs
  on each id in order and returns the item's chunks, the item goes to \<open>add_item\<close>, and
  no file is opened: the events added hold no \<open>FileOpen\<close>. If the memo returns
  \<open>None\<close>, or ids of which one is not seen, the file is opened; when that succeeds, its
  bytes are split by the chunker at \<^verbatim>\<open>(0xfff, 0xffff, 1024, key.chunk_seed)\<close>, every chunk
  goes through \<^verbatim>\<open>add_chunk(id_hash(chunk), chunk)\<close> in order, \<open>memorize_file\<close> stores
  the ids returned under the path hash and the stat, and the item with these chunks goes
  to \<open>add_item\<close>.
\<close>

theorem process_file_uses_memo:
  assumes "\<not> (st_nlink st > 1 \<and> (st_ino st, st_dev st) \<in> dom (a_hard_links w))"
  shows
   "(file_known_and_unchanged (record_hard_link E path st w) (path_hash_of E w path) st = Some ids
      \<and> list_all (seen_chunk (record_hard_link E path st w)) ids \<longrightarrow>
       (\<exists>chunks w1.
          mapE chunk_incref ids (record_hard_link E path st w) = (Inr chunks, w1)
          \<and> map fst chunks = ids
          \<and> process_file E path st w
              = add_item E (file_item E w1 path st chunks) (w1\<lparr>a_nfiles := a_nfiles w1 + 1\<rparr>)
          \<and> list_all (\<lambda>e. \<not> is_file_open e)
               (drop (length (events w)) (events (snd (process_file E path st w))))))
    \<and> ((file_known_and_unchanged (record_hard_link E path st w) (path_hash_of E w path) st = None
         \<or> (\<exists>ids'. file_known_and_unchanged (record_hard_link E path st w) (path_hash_of E w path) st
                      = Some ids'
                    \<and> \<not> list_all (seen_chunk (record_hard_link E path st w)) ids'))
        \<and> e_read_file E path = Inr content \<longrightarrow>
       (\<exists>chunks w2.
          mapE (\<lambda>c. add_chunk (e_key E) (id_hash (e_key E) c) c)
               (e_chunkify E content 0xfff 0xffff 1024 (chunk_seed (e_key E)))
               ((record_hard_link E path st w)
                  \<lparr>events := events (record_hard_link E path st w) @ [FileOpen path]\<rparr>)
            = (Inr chunks, w2)
          \<and> process_file E path st w
              = add_item E
                  (file_item E (memorize_file (path_hash_of E w path) st (map fst chunks) w2)
                     path st chunks)
                  ((memorize_file (path_hash_of E w path) st (map fst chunks) w2)
                     \<lparr>a_nfiles := a_nfiles w2 + 1\<rparr>)))"
proof (intro conjI impI)
  let ?w0 = "record_hard_link E path st w"
  let ?ph = "path_hash_of E w path"
  have pf: "process_file E path st w =
        bindE (known_chunks (path_hash_of E w path) st)
          (\<lambda>known.
             bindE (case known of
                      Some chunks \<Rightarrow> retE chunks
                    | None \<Rightarrow> chunkify_file E path (path_hash_of E w path) st)
               (\<lambda>chunks w3.
                  add_item E (file_item E w3 path st chunks) (w3\<lparr>a_nfiles := a_nfiles w3 + 1\<rparr>)))
          (record_hard_link E path st w)"
    by (simp only: process_file_def if_not_P[OF assms])
  assume hit: "file_known_and_unchanged ?w0 ?ph st = Some ids \<and> list_all (seen_chunk ?w0) ids"
  obtain chunks w1 where inc: "mapE chunk_incref ids ?w0 = (Inr chunks, w1)" "map fst chunks = ids"
      "events w1 = events ?w0"
    using incref_all_seen hit by blast
  have run: "process_file E path st w
              = add_item E (file_item E w1 path st chunks) (w1\<lparr>a_nfiles := a_nfiles w1 + 1\<rparr>)"
    using hit inc(1)
    by (simp add: pf known_chunks_def bindE_def retE_def)
  have ev0: "events ?w0 = events w" by (simp add: record_hard_link_def)
  obtain cs where cs: "events (snd (process_file E path st w)) = events w @ cs"
      "list_all (\<lambda>e. \<not> is_file_open e) cs"
    using add_item_opens_no_file[of E "file_item E w1 path st chunks" "w1\<lparr>a_nfiles := a_nfiles w1 + 1\<rparr>"]
    unfolding run by (auto simp: inc(3) ev0)
  have "list_all (\<lambda>e. \<not> is_file_open e)
               (drop (length (events w)) (events (snd (process_file E path st w))))"
    using cs by simp
  with inc(1,2) run
  show "\<exists>chunks w1.
          mapE chunk_incref ids ?w0 = (Inr chunks, w1)
          \<and> map fst chunks = ids
          \<and> process_file E path st w
              = add_item E (file_item E w1 path st chunks) (w1\<lparr>a_nfiles := a_nfiles w1 + 1\<rparr>)
          \<and> list_all (\<lambda>e. \<not> is_file_open e)
               (drop (length (events w)) (events (snd (process_file E path st w))))"
    by blast
next
  let ?w0 = "record_hard_link E path st w"
  let ?ph = "path_hash_of E w path"
  have pf: "process_file E path st w =
        bindE (known_chunks (path_hash_of E w path) st)
          (\<lambda>known.
             bindE (case known of
                      Some chunks \<Rightarrow> retE chunks
                    | None \<Rightarrow> chunkify_file E path (path_hash_of E w path) st)
               (\<lambda>chunks w3.
                  add_item E (file_item E w3 path st chunks) (w3\<lparr>a_nfiles := a_nfiles w3 + 1\<rparr>)))
          (record_hard_link E path st w)"
    by (simp only: process_file_def if_not_P[OF assms])
  assume miss: "(file_known_and_unchanged ?w0 ?ph st = None
         \<or> (\<exists>ids'. file_known_and_unchanged ?w0 ?ph st = Some ids'
                    \<and> \<not> list_all (seen_chunk ?w0) ids'))
        \<and> e_read_file E path = Inr content"
  then have known: "known_chunks ?ph st ?w0 = (Inr None, ?w0)"
    by (auto simp: known_chunks_def)
  obtain chunks w2 where add: "mapE (\<lambda>c. add_chunk (e_key E) (id_hash (e_key E) c) c)
               (e_chunkify E content 0xfff 0xffff 1024 (chunk_seed (e_key E)))
               (?w0\<lparr>events := events ?w0 @ [FileOpen path]\<rparr>) = (Inr chunks, w2)"
    using add_all_chunks by blast
  have "process_file E path st w
              = add_item E
                  (file_item E (memorize_file ?ph st (map fst chunks) w2) path st chunks)
                  ((memorize_file ?ph st (map fst chunks) w2)\<lparr>a_nfiles := a_nfiles w2 + 1\<rparr>)"
    using miss known add
    by (simp add: pf chunkify_file_def bindE_def Let_def memorize_file_def
          WINDOW_SIZE_def CHUNK_MASK_def CHUNK_MIN_def)
  with add
  show "\<exists>chunks w2.
          mapE (\<lambda>c. add_chunk (e_key E) (id_hash (e_key E) c) c)
               (e_chunkify E content 0xfff 0xffff 1024 (chunk_seed (e_key E)))
               (?w0\<lparr>events := events ?w0 @ [FileOpen path]\<rparr>)
            = (Inr chunks, w2)
          \<and> process_file E path st w
              = add_item E
                  (file_item E (memorize_file ?ph st (map fst chunks) w2) path st chunks)
                  ((memorize_file ?ph st (map fst chunks) w2)\<lparr>a_nfiles := a_nfiles w2 + 1\<rparr>)"
    by blast
qed


lemmas ingest_eval =
  process_file_def known_chunks_def chunkify_file_def file_known_and_unchanged_def
  memorize_file_def record_hard_link_def path_hash_of_def file_item_def stat_attrs_def
  join_def startswith_def endswith_def

theorem process_file_uses_memo_witness:
  "\<not> (st_nlink toy_stat > 1 \<and> (st_ino toy_stat, st_dev toy_stat) \<in> dom (a_hard_links memo_world))
   \<and> file_known_and_unchanged (record_hard_link toy_env ''f'' toy_stat memo_world)
         (path_hash_of toy_env memo_world ''f'') toy_stat = Some [''#data;'', ''#more;'']
   \<and> list_all (seen_chunk (record_hard_link toy_env ''f'' toy_stat memo_world)) [''#data;'', ''#more;'']
   \<and> fst (process_file toy_env ''f'' toy_stat memo_world) = Inr ()
   \<and> list_all (\<lambda>e. \<not> is_file_open e) (events (snd (process_file toy_env ''f'' toy_stat memo_world)))
   \<and> file_known_and_unchanged (record_hard_link toy_env ''f'' toy_stat new_world)
         (path_hash_of toy_env new_world ''f'') toy_stat = None
   \<and> e_read_file toy_env ''f'' = Inr ''data;more;''
   \<and> fst (process_file toy_env ''f'' toy_stat new_world) = Inr ()
   \<and> events (snd (process_file toy_env ''f'' toy_stat new_world))
        = [FileOpen ''f'', RepositoryPut ''#data;'', RepositoryPut ''#more;'']"
proof -
  have nh: "\<not> (st_nlink toy_stat > 1 \<and> (st_ino toy_stat, st_dev toy_stat) \<in> dom (a_hard_links memo_world))"
    and nh': "\<not> (st_nlink toy_stat > 1 \<and> (st_ino toy_stat, st_dev toy_stat) \<in> dom (a_hard_links new_world))"
    by (simp_all add: toy_stat_def)
  have hit: "file_known_and_unchanged (record_hard_link toy_env ''f'' toy_stat memo_world)
         (path_hash_of toy_env memo_world ''f'') toy_stat = Some [''#data;'', ''#more;'']
       \<and> list_all (seen_chunk (record_hard_link toy_env ''f'' toy_stat memo_world)) [''#data;'', ''#more;'']"
    by (simp add: ingest_eval seen_chunk_def memo_world_def new_world_def toy_env_def toy_key_def toy_stat_def)
  have miss: "(file_known_and_unchanged (record_hard_link toy_env ''f'' toy_stat new_world)
         (path_hash_of toy_env new_world ''f'') toy_stat = None
       \<or> (\<exists>ids'. file_known_and_unchanged (record_hard_link toy_env ''f'' toy_stat new_world)
              (path_hash_of toy_env new_world ''f'') toy_stat = Some ids'
            \<and> \<not> list_all (seen_chunk (record_hard_link toy_env ''f'' toy_stat new_world)) ids'))
       \<and> e_read_file toy_env ''f'' = Inr ''data;more;''"
    by (simp add: ingest_eval new_world_def toy_env_def toy_stat_def)
  have none: "file_known_and_unchanged (record_hard_link toy_env ''f'' toy_stat new_world)
         (path_hash_of toy_env new_world ''f'') toy_stat = None"
    by (simp add: ingest_eval new_world_def toy_env_def toy_stat_def)
  have run1: "fst (process_file toy_env ''f'' toy_stat memo_world) = Inr ()"
    and ev1: "events memo_world = []"
    by (simp_all add: ingest_eval world_eval toy_eval memo_world_def toy_stat_def seen_chunk_def)
  have run2: "fst (process_file toy_env ''f'' toy_stat new_world) = Inr ()"
    and ev2: "events (snd (process_file toy_env ''f'' toy_stat new_world))
        = [FileOpen ''f'', RepositoryPut ''#data;'', RepositoryPut ''#more;'']"
    by (simp_all add: ingest_eval world_eval toy_eval toy_stat_def)
  from process_file_uses_memo[OF nh, where E = toy_env and path = "''f''", THEN conjunct1, THEN mp, OF hit]
  have quiet: "list_all (\<lambda>e. \<not> is_file_open e)
      (drop (length (events memo_world)) (events (snd (process_file toy_env ''f'' toy_stat memo_world))))"
    by blast
  show ?thesis
    using nh hit miss none run1 run2 ev2 quiet by (simp add: ev1)
qed

section \<open>\<open>calc_stats\<close>\<close>







subsection \<open>What the statistics record\<close>















end
